(* ===== verification/Prelude.thy ===== *)
theory Prelude
  imports Main "HOL-Library.Word"
begin

text \<open>
  Shared vocabulary of the development: the fixed-width integer types of the C program, the
  collections of rewrite rules the component proofs use, and the generic lemmas on lists,
  option values and words that more than one component needs.
\<close>

unbundle bit_operations_syntax

type_synonym u8 = "8 word"
type_synonym u16 = "16 word"
type_synonym u32 = "32 word"
type_synonym u64 = "64 word"

text \<open>
  \<open>frame_simps\<close>: which parts of the world an operation leaves alone.
  \<open>tx_simps\<close>: what an operation adds to the CAN frames and WebSocket texts of a trace.
  \<open>clib_simps\<close>: the defining equations of the C library model, for evaluating closed terms.
\<close>

named_theorems frame_simps
named_theorems tx_simps
named_theorems clib_simps

section \<open>Lists\<close>

lemma takeWhile_all_append:
  assumes "\<forall>x \<in> set xs. P x" and "ys = [] \<or> \<not> P (hd ys)"
  shows "takeWhile P (xs @ ys) = xs" and "dropWhile P (xs @ ys) = ys"
  using assms by (induction xs) (cases ys, auto)+

lemma nth_update:
  "j < length xs \<Longrightarrow> xs[i := v] ! j = (if i = j then v else xs ! j)"
  by (cases "i = j") simp_all

lemma set_update_subset:
  assumes "x \<in> set (xs[i := v])" and "x \<noteq> v"
  shows "x \<in> set xs"
  using assms set_update_subset_insert by fastforce

text \<open>\<open>find_index P xs\<close> is the first position of \<open>xs\<close> whose element satisfies \<open>P\<close>, the
  result of the C idiom \<^verbatim>\<open>for (i = 0; i < N; ++i) if (P(xs[i])) return &xs[i];\<close> with
  \<open>None\<close> for the final \<^verbatim>\<open>return NULL\<close>.\<close>

fun find_index :: "('a \<Rightarrow> bool) \<Rightarrow> 'a list \<Rightarrow> nat option" where
  "find_index P [] = None"
| "find_index P (x # xs) = (if P x then Some 0 else map_option Suc (find_index P xs))"

lemma find_index_None_iff: "find_index P xs = None \<longleftrightarrow> (\<forall>x \<in> set xs. \<not> P x)"
  by (induction xs) auto

lemma find_index_SomeD:
  assumes "find_index P xs = Some i"
  shows "i < length xs" and "P (xs ! i)" and "\<forall>j < i. \<not> P (xs ! j)"
  using assms
  by (induction xs arbitrary: i) (auto split: if_splits simp: nth_Cons split: nat.splits)

lemma find_index_Some_ex: "(\<exists>x \<in> set xs. P x) \<Longrightarrow> \<exists>i. find_index P xs = Some i"
  by (metis find_index_None_iff option.exhaust)

section \<open>Words\<close>

lemma of_nat_unat_word [simp]: "(of_nat (unat w) :: 'a::len word) = w"
  by simp

lemma u16_hi_lo:
  fixes v :: u16
  shows "(ucast (ucast (v AND 0xFF) :: u8) OR push_bit 8 (ucast (ucast (drop_bit 8 v AND 0xFF) :: u8)) :: u16) = v"
proof -
  have m: "(0xFF :: u16) = mask 8" by (simp add: mask_eq_exp_minus_1)
  show ?thesis
    unfolding m
  proof (rule bit_word_eqI)
    fix n
    assume "n < LENGTH(16)"
    then show "bit (ucast (ucast (v AND mask 8) :: u8) OR
        push_bit 8 (ucast (ucast (drop_bit 8 v AND mask 8) :: u8)) :: u16) n \<longleftrightarrow> bit v n"
      by (cases "n < 8")
        (auto simp only: bit_or_iff bit_push_bit_iff bit_unsigned_iff bit_and_iff bit_mask_iff
          bit_drop_bit_eq o_apply len_of_numeral_defs possible_bit_word le_add_diff_inverse
          nat_neq_iff)
  qed
qed

lemma unat_lt_of_le:
  fixes a :: "'a::len word"
  assumes "a \<le> b" and "unat b < n"
  shows "unat a < n"
  using assms by (simp add: word_le_nat_alt)

section \<open>Transition systems\<close>

text \<open>The states reachable from the initial ones.\<close>

inductive reach :: "('s \<Rightarrow> bool) \<Rightarrow> ('s \<Rightarrow> 's \<Rightarrow> bool) \<Rightarrow> 's \<Rightarrow> bool" for init step where
  reach_init: "init s \<Longrightarrow> reach init step s"
| reach_step: "reach init step s \<Longrightarrow> step s s' \<Longrightarrow> reach init step s'"

text \<open>The contract of an inductive invariant; \<open>base\<close> is an invariant already known, which the steps
  may rely on.\<close>

locale inductive_invariant =
  fixes init :: "'s \<Rightarrow> bool" and step :: "'s \<Rightarrow> 's \<Rightarrow> bool" and base inv :: "'s \<Rightarrow> bool"
  assumes base: "reach init step s \<Longrightarrow> base s"
    and inv_init: "init s \<Longrightarrow> inv s"
    and inv_step: "base s \<Longrightarrow> inv s \<Longrightarrow> step s s' \<Longrightarrow> inv s'"
begin

lemma holds: "reach init step s \<Longrightarrow> inv s"
  by (induction rule: reach.induct) (auto intro: inv_init inv_step base)

lemma strengthened: "reach init step s \<Longrightarrow> base s \<and> inv s"
  by (simp add: holds base)

end

end
