(* ===== verification/CLib.thy ===== *)
theory CLib
  imports Prelude
begin

text \<open>
  The part of the C library the program calls, as pure functions on strings: character classes,
  number scanning (\<^verbatim>\<open>strtoul\<close>, \<^verbatim>\<open>strtol\<close>, \<^verbatim>\<open>atoi\<close> and the integer conversions of
  \<^verbatim>\<open>sscanf\<close>), \<^verbatim>\<open>strtok_r\<close>, and the \<^verbatim>\<open>printf\<close> conversions in use.  A C string is the list of its
  characters before the terminating NUL.  Widths are those of 64-bit Linux (\<^verbatim>\<open>unsigned long\<close> has
  64 bits), and corner cases the C standard leaves open are resolved as glibc does: an integer
  conversion of \<^verbatim>\<open>sscanf\<close> reads an \<^verbatim>\<open>unsigned long\<close> (saturating) and stores it truncated to the
  width of its argument, and a \<^verbatim>\<open>0x\<close> prefix without digits reads as 0.
\<close>

section \<open>Characters and strings\<close>

definition isspace :: "char \<Rightarrow> bool" where
  [clib_simps]: "isspace c \<longleftrightarrow>
     (of_char c :: nat) = 32 \<or> (9 \<le> (of_char c :: nat) \<and> (of_char c :: nat) \<le> 13)"

definition tolower :: "char \<Rightarrow> char" where
  [clib_simps]: "tolower c =
     (if 65 \<le> (of_char c :: nat) \<and> (of_char c :: nat) \<le> 90 then char_of (of_char c + 32 :: nat) else c)"

definition strcasecmp_eq :: "string \<Rightarrow> string \<Rightarrow> bool" where
  [clib_simps]: "strcasecmp_eq s t \<longleftrightarrow> map tolower s = map tolower t"

definition starts_with :: "string \<Rightarrow> string \<Rightarrow> bool" where
  [clib_simps]: "starts_with p s \<longleftrightarrow> take (length p) s = p"
  \<comment> \<open>\<^verbatim>\<open>strncmp(s, p, strlen(p)) == 0\<close>\<close>

definition c_str :: "char list \<Rightarrow> string" where
  [clib_simps]: "c_str = takeWhile (\<lambda>c. c \<noteq> CHR 0x00)"
  \<comment> \<open>the string a NUL-terminated buffer holds\<close>

definition strchr :: "char \<Rightarrow> string \<Rightarrow> string option" where
  [clib_simps]: "strchr c s = (let r = dropWhile (\<lambda>x. x \<noteq> c) s in if r = [] then None else Some r)"

definition trunc_buf :: "nat \<Rightarrow> string \<Rightarrow> string" where
  [clib_simps]: "trunc_buf cap s = take (cap - 1) s"
  \<comment> \<open>what \<^verbatim>\<open>snprintf(buf, cap, ...)\<close> leaves in \<open>buf\<close> when the full text is \<open>s\<close>\<close>

section \<open>Digits\<close>

definition digit_val :: "char \<Rightarrow> nat option" where
  [clib_simps]: "digit_val c = (let n = of_char c in
     if 48 \<le> n \<and> n \<le> 57 then Some (n - 48)
     else if 97 \<le> n \<and> n \<le> 102 then Some (n - 87)
     else if 65 \<le> n \<and> n \<le> 70 then Some (n - 55)
     else None)"

definition is_digit :: "nat \<Rightarrow> char \<Rightarrow> bool" where
  [clib_simps]: "is_digit b c \<longleftrightarrow> (case digit_val c of None \<Rightarrow> False | Some d \<Rightarrow> d < b)"

definition digit_char :: "nat \<Rightarrow> char" where
  [clib_simps]: "digit_char n = ''0123456789abcdef'' ! n"

lemma less_16_cases:
  assumes "n < (16::nat)"
  obtains "n = 0" | "n = 1" | "n = 2" | "n = 3" | "n = 4" | "n = 5" | "n = 6" | "n = 7"
  | "n = 8" | "n = 9" | "n = 10" | "n = 11" | "n = 12" | "n = 13" | "n = 14" | "n = 15"
  using assms by (auto simp: numeral_eq_Suc less_Suc_eq)

lemma digit_val_char [simp]: "n < 16 \<Longrightarrow> digit_val (digit_char n) = Some n"
  by (erule less_16_cases) (simp_all add: digit_val_def digit_char_def)

lemma is_digit_char [simp]: "n < b \<Longrightarrow> b \<le> 16 \<Longrightarrow> is_digit b (digit_char n)"
  by (simp add: is_digit_def)

lemma digit_char_props:
  assumes "n < 16"
  shows "\<not> isspace (digit_char n)" and "digit_char n \<noteq> CHR ''-''" and "digit_char n \<noteq> CHR ''+''"
    and "digit_char n \<noteq> CHR ''x''" and "digit_char n \<noteq> CHR ''X''" and "digit_char n \<noteq> CHR ''#''"
    and "digit_char n \<noteq> CHR ''|''" and "digit_char n \<noteq> CHR 0x00"
  using assms
  by (erule_tac less_16_cases; simp add: isspace_def digit_char_def)+

text \<open>\<^verbatim>\<open>printf\<close>'s \<open>%u\<close> (base 10) and \<open>%x\<close> (base 16) digits of a number.\<close>

fun digits_in :: "nat \<Rightarrow> nat \<Rightarrow> string" where
  "digits_in b n = (if b < 2 \<or> n < b then [digit_char n] else digits_in b (n div b) @ [digit_char (n mod b)])"

declare digits_in.simps [simp del]
declare digits_in.simps [clib_simps]

definition pad0 :: "nat \<Rightarrow> string \<Rightarrow> string" where
  [clib_simps]: "pad0 k s = replicate (k - length s) CHR ''0'' @ s"

definition show_u :: "nat \<Rightarrow> string" where
  [clib_simps]: "show_u n = digits_in 10 n"

definition show_d :: "int \<Rightarrow> string" where
  [clib_simps]: "show_d i = (if i < 0 then CHR ''-'' # show_u (nat (- i)) else show_u (nat i))"

definition show_03x :: "u32 \<Rightarrow> string" where
  [clib_simps]: "show_03x w = pad0 3 (digits_in 16 (unat w))"

definition show_04x :: "u16 \<Rightarrow> string" where
  [clib_simps]: "show_04x w = pad0 4 (digits_in 16 (unat w))"

section \<open>Reading numbers\<close>

fun scan_digits :: "nat \<Rightarrow> nat \<Rightarrow> string \<Rightarrow> nat \<times> string" where
  "scan_digits b acc [] = (acc, [])"
| "scan_digits b acc (c # s) =
     (case digit_val c of
        None \<Rightarrow> (acc, c # s)
      | Some d \<Rightarrow> if d < b then scan_digits b (acc * b + d) s else (acc, c # s))"

definition scan_sign :: "string \<Rightarrow> bool \<times> string" where
  [clib_simps]: "scan_sign s = (case s of
       [] \<Rightarrow> (False, [])
     | c # r \<Rightarrow> if c = CHR ''-'' then (True, r) else if c = CHR ''+'' then (False, r) else (False, s))"

text \<open>The digits after the sign; \<open>None\<close> is a matching failure.\<close>

definition scan_mag :: "nat \<Rightarrow> string \<Rightarrow> (nat \<times> string) option" where
  [clib_simps]: "scan_mag b s = (case s of
       [] \<Rightarrow> None
     | c # r \<Rightarrow>
         if b = 16 \<and> c = CHR ''0'' \<and> r \<noteq> [] \<and> (hd r = CHR ''x'' \<or> hd r = CHR ''X'')
         then Some (scan_digits 16 0 (tl r))
         else if is_digit b c then Some (scan_digits b 0 s) else None)"

definition ulong_of :: "bool \<Rightarrow> nat \<Rightarrow> nat" where
  [clib_simps]: "ulong_of neg m =
     (if m \<ge> 2 ^ 64 then 2 ^ 64 - 1 else if neg then (2 ^ 64 - m) mod 2 ^ 64 else m)"

text \<open>One integer conversion of \<^verbatim>\<open>sscanf\<close>: skip white space, read sign and digits.\<close>

definition scan_int :: "nat \<Rightarrow> string \<Rightarrow> (nat \<times> string) option" where
  [clib_simps]: "scan_int b s = (case scan_sign (dropWhile isspace s) of (neg, r) \<Rightarrow>
     (case scan_mag b r of None \<Rightarrow> None | Some (m, rest) \<Rightarrow> Some (ulong_of neg m, rest)))"

text \<open>\<^verbatim>\<open>strtoul(s, &end, 10)\<close>: the value and the string at \<open>end\<close>.\<close>

definition strtoul10 :: "string \<Rightarrow> nat \<times> string" where
  [clib_simps]: "strtoul10 s = (case scan_int 10 s of None \<Rightarrow> (0, s) | Some r \<Rightarrow> r)"

definition long_of :: "bool \<Rightarrow> nat \<Rightarrow> int" where
  [clib_simps]: "long_of neg m =
     (if neg then (if m > 2 ^ 63 then - (2 ^ 63) else - int m)
      else if m \<ge> 2 ^ 63 then 2 ^ 63 - 1 else int m)"

definition strtol10 :: "string \<Rightarrow> int \<times> string" where
  [clib_simps]: "strtol10 s = (case scan_sign (dropWhile isspace s) of (neg, r) \<Rightarrow>
     (case scan_mag 10 r of None \<Rightarrow> (0, s) | Some (m, rest) \<Rightarrow> (long_of neg m, rest)))"

text \<open>Conversion of a \<^verbatim>\<open>long\<close> to a 32-bit \<^verbatim>\<open>int\<close>, and \<^verbatim>\<open>atoi\<close>.\<close>

definition int_of_long :: "int \<Rightarrow> int" where
  [clib_simps]: "int_of_long i = sint (word_of_int i :: u32)"

definition atoi :: "string \<Rightarrow> int" where
  [clib_simps]: "atoi s = int_of_long (fst (strtol10 s))"

section \<open>sscanf\<close>

text \<open>
  The directives of the formats in use: a literal character, \<open>%x\<close>, \<open>%u\<close>, \<open>%c\<close> and
  \<open>%n[^c]\<close>.  \<open>sscanf\<close> returns the list of values it stores, up to the first failure; the C
  return value is its length (or \<^verbatim>\<open>EOF\<close>, which every caller treats like 0, when nothing was
  stored).
\<close>

datatype directive = Lit char | Hex | Dec | AnyChar | NotChar nat char

datatype scanval = Num nat | Chr char | Str string

fun sscanf :: "directive list \<Rightarrow> string \<Rightarrow> scanval list" where
  "sscanf [] s = []"
| "sscanf (Lit c # ds) s = (case s of [] \<Rightarrow> [] | x # r \<Rightarrow> if x = c then sscanf ds r else [])"
| "sscanf (Hex # ds) s = (case scan_int 16 s of None \<Rightarrow> [] | Some (v, r) \<Rightarrow> Num v # sscanf ds r)"
| "sscanf (Dec # ds) s = (case scan_int 10 s of None \<Rightarrow> [] | Some (v, r) \<Rightarrow> Num v # sscanf ds r)"
| "sscanf (AnyChar # ds) s = (case s of [] \<Rightarrow> [] | x # r \<Rightarrow> Chr x # sscanf ds r)"
| "sscanf (NotChar n c # ds) s =
     (let t = takeWhile (\<lambda>x. x \<noteq> c) (take n s)
      in if t = [] then [] else Str t # sscanf ds (drop (length t) s))"

section \<open>strtok\_r\<close>

text \<open>One call: skip delimiters, take the token, step over the delimiter that ends it.\<close>

definition strtok :: "char \<Rightarrow> string \<Rightarrow> (string \<times> string) option" where
  [clib_simps]: "strtok d s = (let r = dropWhile (\<lambda>c. c = d) s in
     if r = [] then None
     else Some (takeWhile (\<lambda>c. c \<noteq> d) r, tl (dropWhile (\<lambda>c. c \<noteq> d) r)))"

lemma strtok_shorter:
  assumes "strtok d s = Some (t, r)"
  shows "length r < length s"
proof -
  let ?r = "dropWhile (\<lambda>c. c = d) s"
  have "?r \<noteq> []" and r: "r = tl (dropWhile (\<lambda>c. c \<noteq> d) ?r)"
    using assms by (auto simp: strtok_def Let_def split: if_splits)
  have "length (dropWhile (\<lambda>c. c \<noteq> d) ?r) \<le> length ?r" by (rule length_dropWhile_le)
  moreover have "length ?r \<le> length s" by (rule length_dropWhile_le)
  moreover have "0 < length ?r" using \<open>?r \<noteq> []\<close> by simp
  ultimately show ?thesis unfolding r length_tl by linarith
qed

text \<open>The tokens successive calls return, in order.\<close>

function strtok_all :: "char \<Rightarrow> string \<Rightarrow> string list" where
  "strtok_all d s = (case strtok d s of None \<Rightarrow> [] | Some (t, r) \<Rightarrow> t # strtok_all d r)"
  by pat_completeness auto
termination
  by (relation "measure (\<lambda>(d, s). length s)") (auto dest: strtok_shorter)

declare strtok_all.simps [simp del]
declare strtok_all.simps [clib_simps]


fun split_on :: "char \<Rightarrow> string \<Rightarrow> string list" where
  "split_on d [] = [[]]"
| "split_on d (c # s) =
     (if c = d then [] # split_on d s
      else (case split_on d s of [] \<Rightarrow> [[c]] | t # ts \<Rightarrow> (c # t) # ts))"

section \<open>Printing and reading back\<close>

lemma digits_in_not_Nil [simp]: "digits_in b n \<noteq> []"
  by (subst digits_in.simps) simp

lemma set_digits_in: "2 \<le> b \<Longrightarrow> set (digits_in b n) \<subseteq> digit_char ` {..<b}"
proof (induction b n rule: digits_in.induct)
  case (1 b n)
  then show ?case
    by (subst digits_in.simps) (auto split: if_splits)
qed

lemma length_digits_in: "2 \<le> b \<Longrightarrow> n < b ^ k \<Longrightarrow> 0 < k \<Longrightarrow> length (digits_in b n) \<le> k"
proof (induction b n arbitrary: k rule: digits_in.induct)
  case (1 b n)
  show ?case
  proof (cases "n < b")
    case True
    with "1.prems" show ?thesis by (subst digits_in.simps) simp
  next
    case False
    obtain j where k: "k = Suc j" using "1.prems"(3) by (cases k) auto
    have j: "0 < j" using False "1.prems"(2) k by (cases j) auto
    have "n div b < b ^ j"
      using "1.prems"(2) k by (simp add: less_mult_imp_div_less mult.commute)
    then have "length (digits_in b (n div b)) \<le> j"
      using "1.IH" "1.prems"(1) False j by simp
    then show ?thesis using False "1.prems"(1) k by (subst digits_in.simps) simp
  qed
qed

lemma scan_digits_digits_in:
  assumes "2 \<le> b" and "b \<le> 16"
  shows "scan_digits b acc (digits_in b n @ rest)
    = scan_digits b (acc * b ^ length (digits_in b n) + n) rest"
  using assms
proof (induction b n arbitrary: acc rest rule: digits_in.induct)
  case (1 b n)
  show ?case
  proof (cases "n < b")
    case True
    with "1.prems" show ?thesis by (subst (1 2) digits_in.simps) simp
  next
    case False
    let ?m = "n div b" and ?d = "n mod b"
    have eq: "digits_in b n = digits_in b ?m @ [digit_char ?d]"
      using False "1.prems" by (subst digits_in.simps) simp
    have db: "?d < b" using "1.prems" by simp
    then have d: "digit_val (digit_char ?d) = Some ?d"
      using "1.prems" by (intro digit_val_char) linarith
    have "scan_digits b acc (digits_in b n @ rest)
        = scan_digits b (acc * b ^ length (digits_in b ?m) + ?m) (digit_char ?d # rest)"
      using False "1.prems" "1.IH"[of acc "digit_char ?d # rest"] by (simp add: eq)
    also have "\<dots> = scan_digits b ((acc * b ^ length (digits_in b ?m) + ?m) * b + ?d) rest"
      using d db by simp
    also have "(acc * b ^ length (digits_in b ?m) + ?m) * b + ?d
        = acc * b ^ length (digits_in b n) + n"
      by (simp add: eq algebra_simps)
    finally show ?thesis .
  qed
qed

lemma scan_digits_zeros [simp]:
  "0 < b \<Longrightarrow> scan_digits b 0 (replicate k CHR ''0'' @ s) = scan_digits b 0 s"
  by (induction k) (simp_all add: digit_val_def)

text \<open>\<open>stops b s\<close>: a base-\<open>b\<close> number written before \<open>s\<close> ends there.\<close>

definition stops :: "nat \<Rightarrow> string \<Rightarrow> bool" where
  "stops b s \<longleftrightarrow> s = [] \<or> \<not> is_digit b (hd s) \<and> hd s \<noteq> CHR ''x'' \<and> hd s \<noteq> CHR ''X''"

lemma stops_simps [simp]:
  "stops b []" "b \<le> 16 \<Longrightarrow> stops b (CHR ''#'' # s)" "b \<le> 16 \<Longrightarrow> stops b (CHR ''|'' # s)"
  by (simp_all add: stops_def is_digit_def digit_val_def)

lemma scan_digits_stop [simp]: "stops b s \<Longrightarrow> scan_digits b acc s = (acc, s)"
  by (cases s) (auto simp: stops_def is_digit_def split: option.splits)

definition all_digits :: "nat \<Rightarrow> string \<Rightarrow> bool" where
  "all_digits b s \<longleftrightarrow> s \<noteq> [] \<and> set s \<subseteq> digit_char ` {..<b}"

lemma digit_char_0: "CHR ''0'' = digit_char 0"
  by (simp add: digit_char_def)

lemma all_digits_pad0: "2 \<le> b \<Longrightarrow> all_digits b (pad0 k (digits_in b n))"
  using set_digits_in[of b n] by (auto simp: all_digits_def pad0_def digit_char_0)

lemma all_digits_in: "2 \<le> b \<Longrightarrow> all_digits b (digits_in b n)"
  using set_digits_in[of b n] by (auto simp: all_digits_def)

lemma all_digits_avoid:
  assumes "all_digits b s" and "b \<le> 16" and "c \<in> set s"
  shows "\<not> isspace c" and "c \<noteq> CHR ''-''" and "c \<noteq> CHR ''+''" and "c \<noteq> CHR ''x''"
    and "c \<noteq> CHR ''X''" and "c \<noteq> CHR ''#''" and "c \<noteq> CHR ''|''" and "c \<noteq> CHR 0x00"
    and "is_digit b c"
proof -
  from assms obtain d where d: "d < b" "c = digit_char d" by (auto simp: all_digits_def)
  with assms(2) have "d < 16" by simp
  then show "\<not> isspace c" and "c \<noteq> CHR ''-''" and "c \<noteq> CHR ''+''" and "c \<noteq> CHR ''x''"
    and "c \<noteq> CHR ''X''" and "c \<noteq> CHR ''#''" and "c \<noteq> CHR ''|''" and "c \<noteq> CHR 0x00"
    unfolding d by (rule digit_char_props)+
  show "is_digit b c" using d assms(2) by simp
qed

lemma scan_int_all_digits:
  assumes s: "all_digits b s" and b: "b \<le> 16" and rest: "stops b rest"
  shows "scan_int b (s @ rest)
    = (case scan_digits b 0 (s @ rest) of (m, r) \<Rightarrow> Some (ulong_of False m, r))"
proof -
  from s obtain c t where ct: "s = c # t" by (cases s) (auto simp: all_digits_def)
  note c = all_digits_avoid[OF s b, of c]
  have "r \<noteq> [] \<longrightarrow> hd r \<noteq> CHR ''x'' \<and> hd r \<noteq> CHR ''X''" if "r = t @ rest" for r
  proof (cases t)
    case Nil
    with that rest show ?thesis by (auto simp: stops_def)
  next
    case (Cons x xs)
    with that show ?thesis using all_digits_avoid[OF s b, of x] ct by simp
  qed
  then show ?thesis
    using c ct by (auto simp: scan_int_def scan_sign_def scan_mag_def split: prod.splits)
qed

lemma scan_int_pad0:
  assumes "2 \<le> b" "b \<le> 16" "stops b rest" "n < 2 ^ 64"
  shows "scan_int b (pad0 k (digits_in b n) @ rest) = Some (n, rest)"
proof -
  have "scan_digits b 0 (pad0 k (digits_in b n) @ rest) = (n, rest)"
    using assms by (simp add: pad0_def scan_digits_digits_in)
  then show ?thesis
    using assms by (simp add: scan_int_all_digits all_digits_pad0 ulong_of_def)
qed

lemma scan_int_digits_in:
  assumes "2 \<le> b" "b \<le> 16" "stops b rest" "n < 2 ^ 64"
  shows "scan_int b (digits_in b n @ rest) = Some (n, rest)"
  using scan_int_pad0[OF assms, of 0] by (simp add: pad0_def)

lemma scan_int_show [simp]:
  "stops 16 rest \<Longrightarrow> scan_int 16 (show_03x i @ rest) = Some (unat i, rest)"
  "stops 16 rest \<Longrightarrow> scan_int 16 (show_04x v @ rest) = Some (unat v, rest)"
  "stops 10 rest \<Longrightarrow> n < 2 ^ 64 \<Longrightarrow> scan_int 10 (show_u n @ rest) = Some (n, rest)"
proof -
  have "unat i < 2 ^ 64" using unsigned_less[of i, where 'a = nat] by simp
  moreover have "unat v < 2 ^ 64" using unsigned_less[of v, where 'a = nat] by simp
  ultimately show
    "stops 16 rest \<Longrightarrow> scan_int 16 (show_03x i @ rest) = Some (unat i, rest)"
    "stops 16 rest \<Longrightarrow> scan_int 16 (show_04x v @ rest) = Some (unat v, rest)"
    "stops 10 rest \<Longrightarrow> n < 2 ^ 64 \<Longrightarrow> scan_int 10 (show_u n @ rest) = Some (n, rest)"
    by (simp_all add: show_03x_def show_04x_def show_u_def scan_int_pad0 scan_int_digits_in)
qed

lemma length_show_03x: "i \<le> 0x7FF \<Longrightarrow> length (show_03x i) = 3"
proof -
  assume "i \<le> 0x7FF"
  then have "unat i < 16 ^ 3" by (simp add: word_le_nat_alt)
  then have "length (digits_in 16 (unat i)) \<le> 3" by (intro length_digits_in) simp_all
  then show ?thesis by (simp add: show_03x_def pad0_def)
qed

lemma length_show_04x [simp]: "length (show_04x v) = 4"
proof -
  have "unat v < 16 ^ 4" using unsigned_less[of v, where 'a = nat] by simp
  then have "length (digits_in 16 (unat v)) \<le> 4" by (intro length_digits_in) simp_all
  then show ?thesis by (simp add: show_04x_def pad0_def)
qed

lemma show_no_delims:
  assumes "c \<in> set (show_03x i) \<or> c \<in> set (show_04x v) \<or> c \<in> set (show_u n)"
  shows "c \<noteq> CHR ''|''" and "c \<noteq> CHR ''#''" and "c \<noteq> CHR 0x00"
proof -
  have "all_digits 16 (show_03x i)" "all_digits 16 (show_04x v)"
    by (simp_all add: show_03x_def show_04x_def all_digits_pad0)
  moreover have "all_digits 16 (show_u n)"
    using all_digits_in[of 10 n] by (auto simp: show_u_def all_digits_def)
  ultimately obtain s where "all_digits 16 s" "c \<in> set s" using assms by blast
  from all_digits_avoid[OF this(1) order_refl this(2)]
  show "c \<noteq> CHR ''|''" and "c \<noteq> CHR ''#''" and "c \<noteq> CHR 0x00" by simp_all
qed

section \<open>Tokens\<close>

lemma strtok_all_Nil [simp]: "strtok_all d [] = []"
  by (subst strtok_all.simps) (simp add: strtok_def)

lemma strtok_all_delim [simp]: "strtok_all d (d # s) = strtok_all d s"
  by (subst (1 2) strtok_all.simps) (simp add: strtok_def)

text \<open>A token followed by a delimiter.\<close>

lemma strtok_all_token:
  assumes "t \<noteq> []" and "d \<notin> set t"
  shows "strtok_all d (t @ d # s) = t # strtok_all d s" and "strtok_all d t = [t]"
proof -
  have nd: "\<forall>x \<in> set t. x \<noteq> d" using assms(2) by auto
  have dw: "dropWhile (\<lambda>c. c = d) (t @ r) = t @ r" for r
    using assms by (cases t) auto
  have "strtok d (t @ d # s) = Some (t, s)"
    using assms(1) nd by (simp add: strtok_def dw takeWhile_all_append)
  then show "strtok_all d (t @ d # s) = t # strtok_all d s"
    by (subst strtok_all.simps) simp
  have "takeWhile (\<lambda>c. c \<noteq> d) t = t" and "dropWhile (\<lambda>c. c \<noteq> d) t = []" using nd by auto
  note tw = this
  have "strtok d t = Some (t, [])"
    using assms(1) dw[of "[]"] by (simp add: strtok_def tw)
  then show "strtok_all d t = [t]"
    by (subst strtok_all.simps) simp
qed

lemma split_on_not_Nil [simp]: "split_on d s \<noteq> []"
  by (induction s) (auto split: list.splits)

lemma split_on_token:
  assumes "d \<notin> set t"
  shows "split_on d (t @ d # s) = t # split_on d s" and "split_on d t = [t]"
  using assms by (induction t) auto

text \<open>Successive \<^verbatim>\<open>strtok_r\<close> calls return the non-empty fields between delimiters.\<close>

lemma strtok_all_split: "strtok_all d s = filter (\<lambda>t. t \<noteq> []) (split_on d s)"
proof (induction s rule: length_induct)
  case (1 s)
  show ?case
  proof (cases "d \<in> set s")
    case False
    then show ?thesis
      by (cases "s = []") (simp_all add: strtok_all_token split_on_token)
  next
    case True
    then obtain t r where s: "s = t @ d # r" and t: "d \<notin> set t"
      by (meson split_list_first)
    with "1" have "strtok_all d r = filter (\<lambda>t. t \<noteq> []) (split_on d r)" by simp
    with s t show ?thesis
      by (cases "t = []") (simp_all add: strtok_all_token split_on_token)
  qed
qed

end
