(* ===== verification/Context.thy ===== *)
theory Context
  imports CLib
begin

text \<open>
  The data of the program (the structs of \<^verbatim>\<open>include/app/context.h\<close>, \<^verbatim>\<open>include/app/config.h\<close> and
  \<^verbatim>\<open>include/util/logger.h\<close>), the world the operations act on, and the environment that answers
  the calls leaving the program.

  The world holds the application context, the logger (a member of \<^verbatim>\<open>app_context_t\<close> in C, kept
  beside it here so that logging visibly touches nothing else), the detached firing thread if one
  runs, the log directory, \<^verbatim>\<open>errno\<close>, the frames waiting on the CAN socket, and the trace of
  everything that crossed the program's boundary, newest event first.  Every answer of the
  environment is a function of that trace, so a theorem for all environments covers every
  schedule of answers.
\<close>

section \<open>Structs\<close>

text \<open>\<^verbatim>\<open>app_config_t\<close>; \<^verbatim>\<open>int\<close> members are mathematical integers (the conversions that store into
  them write the 32-bit truncation out), strings are the contents of the fixed-size buffers.\<close>

record app_config =
  ws_port :: u16
  max_clients :: int
  read_only :: bool
  testing_mode :: bool
  logging_enabled :: bool
  auto_config_can :: bool
  tick_interval_ms :: int
  can_bitrate :: u32
  can_ifname :: string
  cfg_log_dir :: string

datatype app_state = APP_STATE_PRECHILLING | APP_STATE_HOTFIRE

type_synonym client = nat \<comment> \<open>a \<^verbatim>\<open>ws_client_t *\<close> of the WebSocket library\<close>

text \<open>\<^verbatim>\<open>app_client_ctx_t\<close>: a heap node; the linked list is the list of its nodes in link order.\<close>

record app_client_ctx =
  ctx_addr :: nat
  ctx_client :: client
  write_only :: bool

record wiggle_command =
  slot_id :: u32
  start_value :: u16
  end_value :: u16
  current_value :: u16
  exit_value :: u16
  period_ms :: u32
  total_duration_ms :: u32
  next_toggle_ms :: u64
  stop_time_ms :: u64
  active :: bool

definition APP_MAX_WIGGLES :: nat where "APP_MAX_WIGGLES = 16"

definition APP_MAX_FIRING_BLOCKS :: nat where "APP_MAX_FIRING_BLOCKS = 24"

definition APP_CAN_ID_COUNT :: nat where "APP_CAN_ID_COUNT = 0x800"

text \<open>\<^verbatim>\<open>firing_sequence_config_t\<close>; the arrays keep their \<^verbatim>\<open>APP_MAX_FIRING_BLOCKS\<close> entries, and
  \<open>num_blocks\<close> (a \<^verbatim>\<open>uint8_t\<close> that never passes 24) says how many are in use.\<close>

record firing_sequence_config =
  num_blocks :: nat
  ids :: "u32 list"
  vals :: "(u16 \<times> u16) list"
  wait_times_ms :: "u16 list"
  drown_injector :: bool

record valve_profile =
  lox_main_valve_id :: u32
  lox_main_angle_open :: u16
  lox_vent_valve_id :: u32
  lox_vent_angle_close :: u16

text \<open>\<^verbatim>\<open>struct can_frame\<close> of \<^verbatim>\<open><linux/can.h>\<close>.\<close>

record can_frame =
  can_id :: u32
  can_dlc :: u8
  frame_data :: "u8 list"

record app_context =
  config :: app_config
  stop :: bool
  epoll_fd :: int
  timer_fd :: int
  can_fd :: int
  ws :: bool
  clients :: "app_client_ctx list"
  state :: app_state
  wiggles :: "wiggle_command list"
  can_values :: "int list"
  can_dirty :: "bool list"
  sequence_active :: bool
  sequence_abort :: bool
  valve :: valve_profile

text \<open>An open \<^verbatim>\<open>FILE\<close>: its contents and the file position.\<close>

record stream =
  file_bytes :: string
  file_pos :: nat

record logger =
  enabled :: bool
  fp :: "stream option"
  log_dir :: string
  current_path :: string
  next_maintenance_ms :: u64
  cyclic_mode :: bool
  cyclic_write_offset :: int
  cyclic_capacity_bytes :: int

section \<open>The firing thread\<close>

text \<open>\<^verbatim>\<open>sequence_worker_args_t\<close> and the thread's program counter: before the started message, at the
  head of the block loop, polling the deadline of a block, between the clock read and the abort
  check, about to send a block, and about to call \<^verbatim>\<open>finish_sequence\<close>.\<close>

record sequence_worker_args =
  arg_client :: client
  arg_config :: firing_sequence_config
  started_message :: string
  completed_message :: string
  failed_message :: string

datatype worker_pc = WStart | WBlock nat | WPoll nat u64 | WCheck nat u64 | WSend nat | WFinish

record worker =
  wargs :: sequence_worker_args
  wpc :: worker_pc

section \<open>Events, environment, world\<close>

datatype clockid = CLOCK_MONOTONIC | CLOCK_REALTIME

datatype io_op =
    OpFlush | OpStat | OpSeek | OpWrite nat | OpOpenDir | OpReadDir
  | OpUnlink string | OpMkdir string | OpOpen string

text \<open>System calls that set up and tear down the runtime; \<^verbatim>\<open>SysTimerSet\<close> carries the seconds and
  nanoseconds of the interval.\<close>

datatype sys_op =
    SysSocket | SysIfIndex int string | SysBind int int | SysEpollCreate | SysEpollAdd int int
  | SysTimerCreate | SysTimerSet int int int | SysClose int
  | SysWsCreate u16 int | SysWsStart | SysWsStop | SysWsJoin | SysWsDestroy

datatype wait_status = Exited int | Signaled int

datatype event =
    EvClock clockid u64
  | EvSys sys_op int
  | EvSpawn "string list" "wait_status option"
  | EvCanWrite int can_frame int
  | EvSend client string
  | EvPong client
  | EvSetUserData client "nat option"
  | EvCloseClient client string
  | EvAlloc bool
  | EvThread int
  | EvIo io_op bool

text \<open>Directory entries of the log directory: a name and what \<^verbatim>\<open>stat\<close> says of it (\<open>None\<close> when it
  fails, otherwise whether it is a regular file, and its modification time).\<close>

datatype timespec = Timespec (tv_sec: int) (tv_nsec: int)

record dirent =
  d_name :: string
  d_stat :: "(bool \<times> timespec) option"

type_synonym trace = "event list"

record env =
  clock_gettime :: "trace \<Rightarrow> clockid \<Rightarrow> int \<times> u64 \<times> u64"
  can_write :: "trace \<Rightarrow> can_frame \<Rightarrow> int \<times> int"
  alloc_ok :: "trace \<Rightarrow> bool"
  calloc_ctx :: "trace \<Rightarrow> nat option"
  thread_create :: "trace \<Rightarrow> int"
  ws_connected :: "trace \<Rightarrow> client \<Rightarrow> bool"
  ws_handshake_done :: "trace \<Rightarrow> client \<Rightarrow> bool"
  ws_user_data :: "trace \<Rightarrow> client \<Rightarrow> nat option"
  strerror :: "int \<Rightarrow> string"
  io_ok :: "trace \<Rightarrow> io_op \<Rightarrow> bool"
  io_count :: "trace \<Rightarrow> nat \<Rightarrow> nat"
  statvfs :: "trace \<Rightarrow> dirent list \<Rightarrow> (nat \<times> nat) option"
  sys_ret :: "trace \<Rightarrow> sys_op \<Rightarrow> int"
  spawn :: "trace \<Rightarrow> string list \<Rightarrow> wait_status option"
  local_tm :: "trace \<Rightarrow> (nat \<times> nat \<times> nat \<times> nat \<times> nat \<times> nat) option"

text \<open>What the next \<^verbatim>\<open>read\<close> on the CAN socket returns: a whole frame, a short read, or an error with
  its \<^verbatim>\<open>errno\<close>.  When the queue is empty the non-blocking socket answers \<^verbatim>\<open>EAGAIN\<close>.\<close>

datatype can_read_result = RdFrame can_frame | RdShort | RdError int

record world =
  app :: app_context
  logger :: logger
  worker :: "worker option"
  dir :: "dirent list"
  errno :: int
  rxq :: "can_read_result list"
  trace :: trace

definition EINVAL :: int where "EINVAL = 22"

definition EAGAIN :: int where "EAGAIN = 11"

definition EIO :: int where "EIO = 5"

definition ENOENT :: int where "ENOENT = 2"

definition log_event :: "event \<Rightarrow> world \<Rightarrow> world" where
  "log_event e w = w\<lparr>trace := e # trace w\<rparr>"

lemma log_event_simps [simp]:
  "app (log_event e w) = app w" "logger (log_event e w) = logger w"
  "worker (log_event e w) = worker w" "dir (log_event e w) = dir w"
  "errno (log_event e w) = errno w" "rxq (log_event e w) = rxq w"
  "trace (log_event e w) = e # trace w"
  by (simp_all add: log_event_def)

text \<open>The CAN frames handed to the kernel and the texts sent to WebSocket clients, in order.\<close>

fun can_tx :: "trace \<Rightarrow> can_frame list" where
  "can_tx [] = []"
| "can_tx (EvCanWrite fd f n # t) = can_tx t @ [f]"
| "can_tx (_ # t) = can_tx t"

text \<open>The same frames with what \<^verbatim>\<open>write\<close> returned for each, and the calls that set up and tear down the
  runtime with their results.\<close>

fun writes :: "trace \<Rightarrow> (can_frame \<times> int) list" where
  "writes [] = []"
| "writes (EvCanWrite fd f n # t) = writes t @ [(f, n)]"
| "writes (_ # t) = writes t"

fun sys_log :: "trace \<Rightarrow> (sys_op \<times> int) list" where
  "sys_log [] = []"
| "sys_log (EvSys op r # t) = sys_log t @ [(op, r)]"
| "sys_log (_ # t) = sys_log t"

lemma can_tx_writes: "can_tx t = map fst (writes t)"
  by (induction t rule: can_tx.induct) simp_all

fun ws_tx :: "trace \<Rightarrow> (client \<times> string) list" where
  "ws_tx [] = []"
| "ws_tx (EvSend c m # t) = ws_tx t @ [(c, m)]"
| "ws_tx (_ # t) = ws_tx t"

text \<open>The user data last stored for a client of the WebSocket library.\<close>

fun stored_user_data :: "trace \<Rightarrow> client \<Rightarrow> nat option" where
  "stored_user_data [] c = None"
| "stored_user_data (EvSetUserData c' p # t) c = (if c' = c then p else stored_user_data t c)"
| "stored_user_data (_ # t) c = stored_user_data t c"

section \<open>Clocks\<close>

definition monotonic_ms :: "env \<Rightarrow> world \<Rightarrow> u64 \<times> world" where
  "monotonic_ms e w = (case clock_gettime e (trace w) CLOCK_MONOTONIC of (rc, sec, nsec) \<Rightarrow>
     let t = sec * 1000 + nsec div 1000000 in (t, log_event (EvClock CLOCK_MONOTONIC t) w))"

definition realtime_ns :: "env \<Rightarrow> world \<Rightarrow> u64 \<times> world" where
  "realtime_ns e w = (case clock_gettime e (trace w) CLOCK_REALTIME of (rc, sec, nsec) \<Rightarrow>
     let t = sec * 1000000000 + nsec in (t, log_event (EvClock CLOCK_REALTIME t) w))"

text \<open>
  Operations that leave the control state alone: clock reads, logging and WebSocket sends change
  neither the application context nor the firing thread nor the CAN traffic, and open or close no
  descriptor.  \<open>quiet\<close> says so of an operation that sends no text either, \<open>silent_can\<close> of one that may.
\<close>

definition silent_can :: "world \<Rightarrow> world \<Rightarrow> bool" where
  "silent_can w w' \<longleftrightarrow> app w' = app w \<and> worker w' = worker w \<and> rxq w' = rxq w \<and>
     can_tx (trace w') = can_tx (trace w) \<and> writes (trace w') = writes (trace w) \<and>
     sys_log (trace w') = sys_log (trace w)"

definition quiet :: "world \<Rightarrow> world \<Rightarrow> bool" where
  "quiet w w' \<longleftrightarrow> silent_can w w' \<and> ws_tx (trace w') = ws_tx (trace w)"

lemma quiet_refl [simp, intro]: "quiet w w"
  by (simp add: quiet_def silent_can_def)

lemma quiet_trans [trans]: "quiet u v \<Longrightarrow> quiet v w \<Longrightarrow> quiet u w"
  by (simp add: quiet_def silent_can_def)

lemma silent_can_refl [simp, intro]: "silent_can w w"
  by (simp add: silent_can_def)

lemma silent_can_trans [trans]: "silent_can u v \<Longrightarrow> silent_can v w \<Longrightarrow> silent_can u w"
  by (simp add: silent_can_def)

lemma quiet_silent: "quiet w w' \<Longrightarrow> silent_can w w'"
  by (simp add: quiet_def)

lemma quietD:
  assumes "quiet w w'"
  shows "app w' = app w" "worker w' = worker w" "rxq w' = rxq w"
    "can_tx (trace w') = can_tx (trace w)" "ws_tx (trace w') = ws_tx (trace w)"
    "writes (trace w') = writes (trace w)" "sys_log (trace w') = sys_log (trace w)"
  using assms by (simp_all add: quiet_def silent_can_def)

lemma quiet_monotonic [simp, intro]: "quiet w (snd (monotonic_ms e w))"
  by (simp add: monotonic_ms_def quiet_def silent_can_def Let_def split: prod.splits)

lemma quiet_realtime [simp, intro]: "quiet w (snd (realtime_ns e w))"
  by (simp add: realtime_ns_def quiet_def silent_can_def Let_def split: prod.splits)

lemma clock_keeps [simp]:
  "logger (snd (monotonic_ms e w)) = logger w" "dir (snd (monotonic_ms e w)) = dir w"
  "errno (snd (monotonic_ms e w)) = errno w"
  "logger (snd (realtime_ns e w)) = logger w" "dir (snd (realtime_ns e w)) = dir w"
  "errno (snd (realtime_ns e w)) = errno w"
  by (simp_all add: monotonic_ms_def realtime_ns_def Let_def split: prod.splits)

lemmas clock_frame [simp] = quietD [OF quiet_monotonic] quietD [OF quiet_realtime]

section \<open>app\_context\_init\<close>

definition zero_wiggle :: wiggle_command where
  "zero_wiggle = \<lparr>slot_id = 0, start_value = 0, end_value = 0, current_value = 0, exit_value = 0,
     period_ms = 0, total_duration_ms = 0, next_toggle_ms = 0, stop_time_ms = 0, active = False\<rparr>"

definition default_valve :: valve_profile where
  "default_valve = \<lparr>lox_main_valve_id = 0x709, lox_main_angle_open = 0x0099,
     lox_vent_valve_id = 0x702, lox_vent_angle_close = 0x0074\<rparr>"

definition app_context_init :: "app_config \<Rightarrow> app_context" where
  "app_context_init cfg = \<lparr>config = cfg, stop = False, epoll_fd = -1, timer_fd = -1, can_fd = -1,
     ws = False, clients = [], state = APP_STATE_PRECHILLING,
     wiggles = replicate APP_MAX_WIGGLES zero_wiggle,
     can_values = replicate APP_CAN_ID_COUNT (-1), can_dirty = replicate APP_CAN_ID_COUNT False,
     sequence_active = False, sequence_abort = False, valve = default_valve\<rparr>"

end
