(* ===== verification/Logger.thy ===== *)
theory Logger
  imports Context
begin

text \<open>
  The CSV logger, \<^verbatim>\<open>src/util/logger.c\<close>: directory creation, the free-space maintenance that
  deletes the oldest log files and falls back to overwriting the current file cyclically, and the
  two writers.  File contents are modelled byte by byte (\<open>stream\<close>); which library calls fail, how
  many bytes a write gets out and what \<^verbatim>\<open>statvfs\<close> reports are answers of the environment.  The
  mutex makes every operation atomic.
\<close>

definition LOGGER_MIN_FREE_PERCENT :: nat where "LOGGER_MIN_FREE_PERCENT = 20"

definition LOGGER_MAINTENANCE_INTERVAL_MS :: u64 where "LOGGER_MAINTENANCE_INTERVAL_MS = 5000"

definition LOGGER_MIN_CYCLIC_CAPACITY_BYTES :: int where "LOGGER_MIN_CYCLIC_CAPACITY_BYTES = 4096"

definition PATH_MAX :: nat where "PATH_MAX = 4096"

section \<open>Library calls on files\<close>

definition io_call :: "env \<Rightarrow> io_op \<Rightarrow> world \<Rightarrow> bool \<times> world" where
  "io_call e op w = (let ok = io_ok e (trace w) op in (ok, log_event (EvIo op ok) w))"

definition set_logger :: "(logger \<Rightarrow> logger) \<Rightarrow> world \<Rightarrow> world" where
  "set_logger f w = w\<lparr>logger := f (logger w)\<rparr>"

definition overwrite :: "string \<Rightarrow> nat \<Rightarrow> string \<Rightarrow> string" where
  "overwrite bs p s = take p bs @ replicate (p - length bs) CHR 0x00 @ s @ drop (p + length s) bs"

text \<open>\<^verbatim>\<open>fseeko(fp, off, SEEK_SET)\<close>, \<^verbatim>\<open>fseeko(fp, 0, SEEK_END)\<close> and \<^verbatim>\<open>fwrite\<close> (the number of bytes
  it gets out, which advance the position).\<close>

definition fseek_set :: "env \<Rightarrow> nat \<Rightarrow> world \<Rightarrow> bool \<times> world" where
  "fseek_set e off w = (case io_call e OpSeek w of (ok, w1) \<Rightarrow>
     (ok, if ok then set_logger (\<lambda>l. l\<lparr>fp := map_option (\<lambda>s. s\<lparr>file_pos := off\<rparr>) (fp l)\<rparr>) w1 else w1))"

definition fseek_end :: "env \<Rightarrow> world \<Rightarrow> bool \<times> world" where
  "fseek_end e w = (case io_call e OpSeek w of (ok, w1) \<Rightarrow>
     (ok, if ok then set_logger (\<lambda>l. l\<lparr>fp := map_option (\<lambda>s. s\<lparr>file_pos := length (file_bytes s)\<rparr>) (fp l)\<rparr>) w1
          else w1))"

definition fwrite :: "env \<Rightarrow> string \<Rightarrow> world \<Rightarrow> nat \<times> world" where
  "fwrite e s w = (let n = min (io_count e (trace w) (length s)) (length s) in
     (n, log_event (EvIo (OpWrite n) (n = length s))
       (set_logger (\<lambda>l. l\<lparr>fp := map_option
          (\<lambda>st. st\<lparr>file_bytes := overwrite (file_bytes st) (file_pos st) (take n s),
                   file_pos := file_pos st + n\<rparr>) (fp l)\<rparr>) w)))"

section \<open>Directories and free space\<close>

text \<open>The paths \<^verbatim>\<open>ensure_directory_exists\<close> passes to \<^verbatim>\<open>mkdir\<close>: every prefix that ends before a
  \<^verbatim>\<open>/\<close> (the first character excepted), then the whole path.\<close>

definition mkdir_prefixes :: "string \<Rightarrow> string list" where
  "mkdir_prefixes p = [take i p. i \<leftarrow> [1..<length p], p ! i = CHR ''/''] @ [p]"

text \<open>\<open>OpMkdir\<close> succeeds when \<^verbatim>\<open>mkdir\<close> returns 0 or fails with \<^verbatim>\<open>EEXIST\<close>.\<close>

fun mkdir_all :: "env \<Rightarrow> string list \<Rightarrow> world \<Rightarrow> bool \<times> world" where
  "mkdir_all e [] w = (True, w)"
| "mkdir_all e (p # ps) w =
     (case io_call e (OpMkdir p) w of (ok, w1) \<Rightarrow> if ok then mkdir_all e ps w1 else (False, w1))"

definition ensure_directory_exists :: "env \<Rightarrow> string \<Rightarrow> world \<Rightarrow> bool \<times> world" where
  "ensure_directory_exists e path w =
     (if path = [] then (False, w)
      else if length path \<ge> PATH_MAX then (False, w)
      else mkdir_all e (mkdir_prefixes path) w)"

text \<open>The products are computed in 64 bits and the quotient is stored in 32.\<close>

definition get_free_percent :: "env \<Rightarrow> world \<Rightarrow> nat option" where
  "get_free_percent e w = (case statvfs e (trace w) (dir w) of
       None \<Rightarrow> None
     | Some (f_bavail, f_blocks) \<Rightarrow>
         if f_blocks = 0 then Some 100
         else Some (((f_bavail * 100) mod 2 ^ 64 div f_blocks) mod 2 ^ 32))"

definition is_logger_file_name :: "string \<Rightarrow> bool" where
  "is_logger_file_name name = starts_with ''simple_ws_'' name"

definition timespec_cmp :: "timespec \<Rightarrow> timespec \<Rightarrow> int" where
  "timespec_cmp a b =
     (if tv_sec a < tv_sec b then -1
      else if tv_sec a > tv_sec b then 1
      else if tv_nsec a < tv_nsec b then -1
      else if tv_nsec a > tv_nsec b then 1
      else 0)"

definition log_full_path :: "string \<Rightarrow> string \<Rightarrow> string" where
  "log_full_path d name = d @ (if last d = CHR ''/'' then '''' else ''/'') @ name"

definition deletable :: "logger \<Rightarrow> dirent \<Rightarrow> timespec option" where
  "deletable l d =
     (let full = log_full_path (log_dir l) (d_name d) in
      if \<not> is_logger_file_name (d_name d) then None
      else if length full \<ge> PATH_MAX then None
      else if full = current_path l then None
      else case d_stat d of
          None \<Rightarrow> None
        | Some (reg, mtime) \<Rightarrow> if \<not> reg then None else Some mtime)"

fun oldest_loop :: "logger \<Rightarrow> dirent list \<Rightarrow> (timespec \<times> string) option \<Rightarrow> (timespec \<times> string) option" where
  "oldest_loop l [] best = best"
| "oldest_loop l (d # ds) best =
     oldest_loop l ds
       (case deletable l d of
          None \<Rightarrow> best
        | Some mtime \<Rightarrow>
            if (case best of None \<Rightarrow> True | Some (oldest, _) \<Rightarrow> timespec_cmp mtime oldest < 0)
            then Some (mtime, log_full_path (log_dir l) (d_name d))
            else best)"

text \<open>The outer \<open>None\<close> is the error return; \<open>Some None\<close> says that nothing was found.\<close>

definition find_oldest_deletable_log :: "env \<Rightarrow> world \<Rightarrow> string option option \<times> world" where
  "find_oldest_deletable_log e w =
     (case io_call e OpOpenDir w of (opened, w1) \<Rightarrow>
        if \<not> opened then (None, w1)
        else case io_call e OpReadDir w1 of (read, w2) \<Rightarrow>
          if \<not> read then (None, w2)
          else (Some (map_option snd (oldest_loop (logger w2) (dir w2) None)), w2))"

definition unlink :: "env \<Rightarrow> string \<Rightarrow> world \<Rightarrow> bool \<times> world" where
  "unlink e p w = (case io_call e (OpUnlink p) w of (ok, w1) \<Rightarrow>
     (ok, if ok then w1\<lparr>dir := filter (\<lambda>d. log_full_path (log_dir (logger w1)) (d_name d) \<noteq> p) (dir w1)\<rparr>
          else w1))"

section \<open>Cyclic mode\<close>

definition prepare_cyclic_mode_locked :: "env \<Rightarrow> world \<Rightarrow> bool \<times> world" where
  "prepare_cyclic_mode_locked e w =
     (case fp (logger w) of
        None \<Rightarrow> (False, w)
      | Some st \<Rightarrow>
          (case io_call e OpFlush w of (flushed, w1) \<Rightarrow>
             if \<not> flushed then (False, w1)
             else case io_call e OpStat w1 of (statted, w2) \<Rightarrow>
               if \<not> statted then (False, w2)
               else
                 let cap = (if int (length (file_bytes st)) < LOGGER_MIN_CYCLIC_CAPACITY_BYTES
                            then LOGGER_MIN_CYCLIC_CAPACITY_BYTES else int (length (file_bytes st)))
                 in (True, set_logger (\<lambda>l. l\<lparr>cyclic_capacity_bytes := cap,
                       cyclic_write_offset :=
                         (if cyclic_write_offset l < 0 \<or> cyclic_write_offset l \<ge> cap then 0
                          else cyclic_write_offset l)\<rparr>) w2)))"

definition fit_capacity :: "int \<Rightarrow> logger \<Rightarrow> logger" where
  "fit_capacity len l =
     (let l1 = (if len > cyclic_capacity_bytes l then l\<lparr>cyclic_capacity_bytes := len\<rparr> else l)
      in if cyclic_write_offset l1 + len > cyclic_capacity_bytes l1
         then l1\<lparr>cyclic_write_offset := 0\<rparr> else l1)"

definition advance_offset :: "int \<Rightarrow> logger \<Rightarrow> logger" where
  "advance_offset len l =
     (let off = cyclic_write_offset l + len
      in l\<lparr>cyclic_write_offset := (if off \<ge> cyclic_capacity_bytes l then 0 else off)\<rparr>)"

definition write_cyclic_bytes_locked :: "env \<Rightarrow> string \<Rightarrow> world \<Rightarrow> bool \<times> world" where
  "write_cyclic_bytes_locked e data w =
     (if fp (logger w) = None then (False, w)
      else if length data = 0 then (True, w)
      else case (if cyclic_capacity_bytes (logger w) \<le> 0 then prepare_cyclic_mode_locked e w else (True, w)) of
        (prepared, w1) \<Rightarrow>
          if \<not> prepared then (False, w1)
          else
            let w2 = set_logger (fit_capacity (int (length data))) w1
            in case fseek_set e (nat (cyclic_write_offset (logger w2))) w2 of (sought, w3) \<Rightarrow>
              if \<not> sought then (False, w3)
              else case fwrite e data w3 of (n, w4) \<Rightarrow>
                if n \<noteq> length data then (False, w4)
                else case io_call e OpFlush (set_logger (advance_offset (int (length data))) w4) of
                  (flushed, w5) \<Rightarrow> (flushed, w5))"

section \<open>Maintenance\<close>

definition leave_cyclic_mode :: "logger \<Rightarrow> logger" where
  "leave_cyclic_mode l = l\<lparr>cyclic_mode := False, cyclic_capacity_bytes := 0, cyclic_write_offset := 0\<rparr>"

lemma io_call_keeps [simp]:
  "logger (snd (io_call e op w)) = logger w" "dir (snd (io_call e op w)) = dir w"
  by (simp_all add: io_call_def Let_def)

lemma oldest_loop_cases:
  assumes "oldest_loop l ds best = Some (t, p)"
  shows "best = Some (t, p) \<or> (\<exists>d \<in> set ds. deletable l d = Some t \<and> p = log_full_path (log_dir l) (d_name d))"
  using assms
proof (induction ds arbitrary: best)
  case Nil
  then show ?case by simp
next
  case (Cons d ds)
  from Cons.IH[OF Cons.prems[unfolded oldest_loop.simps]] show ?case
    by (auto split: option.splits if_splits)
qed

lemma unlink_shrinks:
  assumes "find_oldest_deletable_log e w = (Some (Some p), w1)" and "unlink e p w1 = (True, w2)"
  shows "length (dir w2) < length (dir w)"
proof -
  have w1: "logger w1 = logger w" "dir w1 = dir w"
    using assms(1)
    by (auto simp: find_oldest_deletable_log_def io_call_def Let_def split: prod.splits if_splits)
  obtain t where "oldest_loop (logger w) (dir w) None = Some (t, p)"
    using assms(1)
    by (auto simp: find_oldest_deletable_log_def io_call_def Let_def split: prod.splits if_splits)
  then obtain d where "d \<in> set (dir w)" "p = log_full_path (log_dir (logger w)) (d_name d)"
    by (auto dest: oldest_loop_cases)
  moreover have "dir w2 = filter (\<lambda>d. log_full_path (log_dir (logger w)) (d_name d) \<noteq> p) (dir w)"
    using assms(2) w1 by (auto simp: unlink_def io_call_def Let_def split: prod.splits if_splits)
  ultimately show ?thesis
    by (metis (mono_tags, lifting) length_filter_less)
qed

function maintenance_loop :: "env \<Rightarrow> world \<Rightarrow> world" where
  "maintenance_loop e w =
     (case find_oldest_deletable_log e w of
        (None, w1) \<Rightarrow> w1
      | (Some None, w1) \<Rightarrow>
          snd (prepare_cyclic_mode_locked e (set_logger (\<lambda>l. l\<lparr>cyclic_mode := True\<rparr>) w1))
      | (Some (Some p), w1) \<Rightarrow>
          (case unlink e p w1 of
             (False, w2) \<Rightarrow> w2
           | (True, w2) \<Rightarrow>
               (case get_free_percent e w2 of
                  None \<Rightarrow> w2
                | Some pct \<Rightarrow>
                    if pct \<ge> LOGGER_MIN_FREE_PERCENT then set_logger leave_cyclic_mode w2
                    else maintenance_loop e w2)))"
  by pat_completeness auto
termination
  by (relation "measure (\<lambda>(e, w). length (dir w))") (auto intro: unlink_shrinks [OF sym sym])

declare maintenance_loop.simps [simp del]

definition maybe_run_maintenance_locked :: "env \<Rightarrow> world \<Rightarrow> world" where
  "maybe_run_maintenance_locked e w =
     (if \<not> enabled (logger w) \<or> fp (logger w) = None then w
      else case monotonic_ms e w of (now_ms, w1) \<Rightarrow>
        if now_ms < next_maintenance_ms (logger w1) then w1
        else
          let w2 = set_logger (\<lambda>l. l\<lparr>next_maintenance_ms := now_ms + LOGGER_MAINTENANCE_INTERVAL_MS\<rparr>) w1
          in case get_free_percent e w2 of
               None \<Rightarrow> w2
             | Some free_pct \<Rightarrow>
                 if free_pct \<ge> LOGGER_MIN_FREE_PERCENT then set_logger leave_cyclic_mode w2
                 else maintenance_loop e w2)"

section \<open>Opening and closing\<close>

definition zero_logger :: logger where
  "zero_logger = \<lparr>enabled = False, fp = None, log_dir = [], current_path = [],
     next_maintenance_ms = 0, cyclic_mode = False, cyclic_write_offset = 0, cyclic_capacity_bytes = 0\<rparr>"

text \<open>\<^verbatim>\<open>strftime\<close> with the format of the log file names.\<close>

definition log_file_name :: "nat \<times> nat \<times> nat \<times> nat \<times> nat \<times> nat \<Rightarrow> string" where
  "log_file_name tm = (case tm of (Y, m, d, H, M, S) \<Rightarrow>
     ''simple_ws_'' @ show_u Y @ pad0 2 (show_u m) @ pad0 2 (show_u d) @ ''_''
       @ pad0 2 (show_u H) @ pad0 2 (show_u M) @ pad0 2 (show_u S) @ ''.csv'')"

definition logger_open :: "env \<Rightarrow> bool \<Rightarrow> string \<Rightarrow> world \<Rightarrow> bool \<times> world" where
  "logger_open e en path w =
     (let w0 = w\<lparr>logger := zero_logger\<lparr>enabled := en\<rparr>\<rparr> in
      if \<not> en then (True, w0)
      else if path = [] then (False, w0)
      else case ensure_directory_exists e path w0 of (made, w1) \<Rightarrow>
        if \<not> made then (False, w1)
        else case local_tm e (trace w1) of
            None \<Rightarrow> (False, w1)
          | Some tm \<Rightarrow>
              let filename = log_file_name tm; full = log_full_path path filename in
              if length filename \<ge> 64 then (False, w1)
              else if length full \<ge> PATH_MAX then (False, w1)
              else case io_call e (OpOpen full) w1 of (opened, w2) \<Rightarrow>
                if \<not> opened then (False, w2)
                else (True, maybe_run_maintenance_locked e
                  (set_logger (\<lambda>l. l\<lparr>fp := Some \<lparr>file_bytes = [], file_pos = 0\<rparr>, log_dir := path,
                     current_path := full, next_maintenance_ms := 0, cyclic_mode := False,
                     cyclic_capacity_bytes := 0, cyclic_write_offset := 0\<rparr>)
                   (w2\<lparr>dir := (if \<exists>d \<in> set (dir w2). d_name d = filename then dir w2
                      else \<lparr>d_name = filename, d_stat = None\<rparr> # dir w2)\<rparr>))))"

definition logger_close :: "env \<Rightarrow> world \<Rightarrow> world" where
  "logger_close e w =
     (case fp (logger w) of
        None \<Rightarrow> w
      | Some st \<Rightarrow> set_logger (\<lambda>l. l\<lparr>fp := None\<rparr>) (snd (io_call e OpFlush w)))"

section \<open>Writing\<close>

definition log_header :: "u64 \<Rightarrow> string \<Rightarrow> string" where
  "log_header ns kind = show_u (unat ns) @ '','' @ kind @ '',''"

definition write_normal_line_locked :: "env \<Rightarrow> string \<Rightarrow> string \<Rightarrow> world \<Rightarrow> bool \<times> world" where
  "write_normal_line_locked e kind payload w =
     (case fseek_end e w of (sought, w1) \<Rightarrow>
        if \<not> sought then (False, w1)
        else case realtime_ns e w1 of (ns, w2) \<Rightarrow>
          let w3 = snd (fwrite e (log_header ns kind) w2);
              w4 = (if length payload > 0 then snd (fwrite e payload w3) else w3)
          in (True, snd (fwrite e ''\<newline>'' w4)))"

definition write_cyclic_line :: "env \<Rightarrow> string \<Rightarrow> string \<Rightarrow> world \<Rightarrow> world" where
  "write_cyclic_line e kind payload w =
     (case realtime_ns e w of (ns, w1) \<Rightarrow>
        let w2 = snd (write_cyclic_bytes_locked e (log_header ns kind) w1);
            w3 = (if length payload > 0 then snd (write_cyclic_bytes_locked e payload w2) else w2)
        in snd (write_cyclic_bytes_locked e ''\<newline>'' w3))"

definition logger_write :: "env \<Rightarrow> string \<Rightarrow> string \<Rightarrow> world \<Rightarrow> world" where
  "logger_write e kind payload w =
     (if \<not> enabled (logger w) \<or> fp (logger w) = None then w
      else
        let w1 = maybe_run_maintenance_locked e w
        in if \<not> cyclic_mode (logger w1) then snd (write_normal_line_locked e kind payload w1)
           else write_cyclic_line e kind payload w1)"


text \<open>\<^verbatim>\<open>logger_printf\<close>, with \<open>msg\<close> the text its format and arguments produce.\<close>

definition logger_printf :: "env \<Rightarrow> string \<Rightarrow> string \<Rightarrow> world \<Rightarrow> world" where
  "logger_printf e kind msg w =
     (if \<not> enabled (logger w) \<or> fp (logger w) = None then w
      else
        let w1 = maybe_run_maintenance_locked e w
        in if \<not> cyclic_mode (logger w1) then
             (case fseek_end e w1 of (sought, w2) \<Rightarrow>
                if \<not> sought then w2
                else case realtime_ns e w2 of (ns, w3) \<Rightarrow>
                  snd (fwrite e ''\<newline>'' (snd (fwrite e msg (snd (fwrite e (log_header ns kind) w3))))))
           else
             (case realtime_ns e w1 of (ns, w2) \<Rightarrow>
                let w3 = snd (write_cyclic_bytes_locked e (log_header ns kind) w2);
                    w4 = (if length msg > 0 then
                            let ok = alloc_ok e (trace w3); w3' = log_event (EvAlloc ok) w3
                            in if ok then snd (write_cyclic_bytes_locked e msg w3') else w3'
                          else w3)
                in snd (write_cyclic_bytes_locked e ''\<newline>'' w4)))"

section \<open>Logging is quiet\<close>

lemma quiet_io_call [simp, intro]: "quiet w (snd (io_call e op w))"
  by (simp add: io_call_def Let_def quiet_def silent_can_def)

lemma quiet_set_logger [simp, intro]: "quiet w (set_logger f w)"
  by (simp add: set_logger_def quiet_def silent_can_def)

lemma quiet_alloc_event [simp, intro]: "quiet w (log_event (EvAlloc ok) w)"
  by (simp add: quiet_def silent_can_def)

lemma quiet_dir [simp, intro]: "quiet w (w\<lparr>dir := d\<rparr>)" "quiet w (w\<lparr>logger := l\<rparr>)"
  by (simp_all add: quiet_def silent_can_def)

text \<open>\<open>quiet_unfold\<close> reduces a quietness goal to equations between the parts of the world; each
  operation proved quiet adds its own equations to \<open>frame_simps\<close>.\<close>

lemmas quiet_unfold = quiet_def silent_can_def case_prod_beta Let_def

lemmas [frame_simps] = quietD [OF quiet_io_call] quietD [OF quiet_set_logger]
  quietD [OF quiet_alloc_event] quietD [OF quiet_dir(1)] quietD [OF quiet_dir(2)]

lemma quiet_fseek_set [simp, intro]: "quiet w (snd (fseek_set e n w))"
  by (simp add: fseek_set_def quiet_unfold frame_simps)

lemma quiet_fseek_end [simp, intro]: "quiet w (snd (fseek_end e w))"
  by (simp add: fseek_end_def quiet_unfold frame_simps)

lemma quiet_fwrite [simp, intro]: "quiet w (snd (fwrite e s w))"
  by (simp add: fwrite_def quiet_unfold frame_simps)

lemma quiet_mkdir_all [simp, intro]: "quiet w (snd (mkdir_all e ps w))"
  by (induction ps arbitrary: w) (auto simp: case_prod_beta intro: quiet_trans quiet_io_call)

lemma quiet_ensure_directory_exists [simp, intro]: "quiet w (snd (ensure_directory_exists e p w))"
  by (simp add: ensure_directory_exists_def)

lemma quiet_find_oldest [simp, intro]: "quiet w (snd (find_oldest_deletable_log e w))"
  by (simp add: find_oldest_deletable_log_def quiet_unfold frame_simps)

lemma quiet_unlink [simp, intro]: "quiet w (snd (unlink e p w))"
  by (simp add: unlink_def quiet_unfold frame_simps)

lemma quiet_prepare_cyclic [simp, intro]: "quiet w (snd (prepare_cyclic_mode_locked e w))"
  by (simp add: prepare_cyclic_mode_locked_def quiet_unfold frame_simps split: option.splits)

lemmas [frame_simps] = quietD [OF quiet_fseek_set] quietD [OF quiet_fseek_end]
  quietD [OF quiet_fwrite] quietD [OF quiet_find_oldest] quietD [OF quiet_unlink]
  quietD [OF quiet_prepare_cyclic] quietD [OF quiet_ensure_directory_exists]

lemma quiet_write_cyclic [simp, intro]: "quiet w (snd (write_cyclic_bytes_locked e d w))"
  by (simp add: write_cyclic_bytes_locked_def quiet_unfold frame_simps)

lemma quiet_maintenance_loop [simp, intro]: "quiet w (maintenance_loop e w)"
proof (induction e w rule: maintenance_loop.induct)
  case (1 e w)
  obtain found w1 where f: "find_oldest_deletable_log e w = (found, w1)" by fastforce
  have q1: "quiet w w1" using quiet_find_oldest[of w e] f by simp
  show ?case
  proof (cases "found = None \<or> found = Some None")
    case True
    moreover have "quiet w (snd (prepare_cyclic_mode_locked e (set_logger (\<lambda>l. l\<lparr>cyclic_mode := True\<rparr>) w1)))"
      by (rule quiet_trans [OF q1 quiet_trans [OF quiet_set_logger quiet_prepare_cyclic]])
    ultimately show ?thesis
      using q1 f by (subst maintenance_loop.simps) auto
  next
    case False
    then obtain p where p: "found = Some (Some p)" by (metis option.exhaust)
    obtain ok w2 where u: "unlink e p w1 = (ok, w2)" by fastforce
    have q2: "quiet w w2" using quiet_trans [OF q1 quiet_unlink [of w1 e p]] u by simp
    show ?thesis
      using "1.IH" f p u q2
      by (subst maintenance_loop.simps)
        (auto split: bool.splits option.splits intro: quiet_trans quiet_trans [OF q2 quiet_set_logger])
  qed
qed

lemmas [frame_simps] = quietD [OF quiet_write_cyclic] quietD [OF quiet_maintenance_loop]

lemma quiet_maybe_run_maintenance [simp, intro]: "quiet w (maybe_run_maintenance_locked e w)"
  by (simp add: maybe_run_maintenance_locked_def quiet_unfold frame_simps split: option.splits)

lemmas [frame_simps] = quietD [OF quiet_maybe_run_maintenance]

lemma quiet_write_normal [simp, intro]: "quiet w (snd (write_normal_line_locked e k p w))"
  by (simp add: write_normal_line_locked_def quiet_unfold frame_simps)

lemma quiet_write_cyclic_line [simp, intro]: "quiet w (write_cyclic_line e k p w)"
  by (simp add: write_cyclic_line_def quiet_unfold frame_simps)

lemmas [frame_simps] = quietD [OF quiet_write_normal] quietD [OF quiet_write_cyclic_line]

lemma quiet_logger_write [simp, intro]: "quiet w (logger_write e k p w)"
  by (simp add: logger_write_def quiet_unfold frame_simps)

lemma quiet_logger_printf [simp, intro]: "quiet w (logger_printf e k m w)"
  by (simp add: logger_printf_def quiet_unfold frame_simps)

lemma quiet_logger_open [simp, intro]: "quiet w (snd (logger_open e en p w))"
  by (simp add: logger_open_def quiet_unfold frame_simps split: option.splits)

lemma quiet_logger_close [simp, intro]: "quiet w (logger_close e w)"
  by (simp add: logger_close_def quiet_unfold frame_simps split: option.splits)

text \<open>What the rest of the program sees of a log call.\<close>

lemmas logger_frame [simp] = quietD [OF quiet_logger_write] quietD [OF quiet_logger_printf]
  quietD [OF quiet_logger_open] quietD [OF quiet_logger_close]

end
