(* ===== verification/Sample.thy ===== *)
theory Sample
  imports Logger
begin

text \<open>
  A concrete environment and worlds on which the theorems are instantiated: every call succeeds, the
  clock advances by a second with each event, the CAN socket is open and the server runs.
\<close>

definition sample_env :: env where
  "sample_env = \<lparr>
     clock_gettime = (\<lambda>t _. (0, of_nat (min (length t) 18446744073709551), 615000000)),
     can_write = (\<lambda>_ _. (16, 0)),
     alloc_ok = (\<lambda>_. True),
     calloc_ctx = (\<lambda>t. Some (length t)),
     thread_create = (\<lambda>_. 0),
     ws_connected = (\<lambda>_ _. True),
     ws_handshake_done = (\<lambda>_ _. True),
     ws_user_data = stored_user_data,
     strerror = (\<lambda>_. ''error''),
     io_ok = (\<lambda>_ _. True),
     io_count = (\<lambda>_ n. n),
     statvfs = (\<lambda>_ _. Some (50, 100)),
     sys_ret = (\<lambda>_ op. case op of SysSocket \<Rightarrow> 3 | SysEpollCreate \<Rightarrow> 4 | SysTimerCreate \<Rightarrow> 5
                  | SysIfIndex _ _ \<Rightarrow> 1 | SysWsCreate _ _ \<Rightarrow> 1 | _ \<Rightarrow> 0),
     spawn = (\<lambda>_ _. Some (Exited 0)),
     local_tm = (\<lambda>_. Some (2026, 1, 2, 3, 4, 5))\<rparr>"

text \<open>The same with a clock that stands still at seven seconds.\<close>

definition still_env :: env where
  "still_env = sample_env\<lparr>clock_gettime := (\<lambda>_ _. (0, 7, 0))\<rparr>"

definition sample_config :: app_config where
  "sample_config = \<lparr>ws_port = 8080, max_clients = 128, read_only = False,
     testing_mode = False, logging_enabled = False, auto_config_can = True, tick_interval_ms = 5,
     can_bitrate = 500000, can_ifname = ''can0'', cfg_log_dir = ''/var/log/simple_ws''\<rparr>"

definition sample_world :: world where
  "sample_world = \<lparr>app = (app_context_init sample_config)\<lparr>can_fd := 3, epoll_fd := 4, timer_fd := 5, ws := True\<rparr>,
     logger = zero_logger, worker = None, dir = [], errno = 0, rxq = [], trace = []\<rparr>"

definition hotfire_world :: world where
  "hotfire_world = sample_world\<lparr>app := (app sample_world)\<lparr>state := APP_STATE_HOTFIRE\<rparr>\<rparr>"

lemmas sample_simps = sample_env_def still_env_def sample_config_def sample_world_def hotfire_world_def
  app_context_init_def zero_logger_def

end
