(* ===== verification/CanBus.thy ===== *)
theory CanBus
  imports Sample
begin

text \<open>
  The CAN side, \<^verbatim>\<open>src/can/can_bus.c\<close> and \<^verbatim>\<open>src/util/heartbeat.c\<close>: interface setup, opening and
  closing the raw socket, sending command frames, receiving frames into the table of last values,
  and formatting the values that changed.  The two tables have \<^verbatim>\<open>APP_CAN_ID_COUNT\<close> entries.
\<close>

section \<open>Processes and sockets\<close>

definition sys :: "env \<Rightarrow> sys_op \<Rightarrow> world \<Rightarrow> int \<times> world" where
  "sys e op w = (let r = sys_ret e (trace w) op in (r, log_event (EvSys op r) w))"

text \<open>\<open>spawn\<close> is \<open>None\<close> when \<^verbatim>\<open>fork\<close> fails or \<^verbatim>\<open>waitpid\<close> fails other than by \<^verbatim>\<open>EINTR\<close>.\<close>

definition run_command :: "env \<Rightarrow> string list \<Rightarrow> world \<Rightarrow> int \<times> world" where
  "run_command e argv w =
     (let st = spawn e (trace w) argv; w1 = log_event (EvSpawn argv st) w in
      case st of
        None \<Rightarrow> (-1, w1)
      | Some status \<Rightarrow> if status = Exited 0 then (0, w1) else (-1, w1\<lparr>errno := EIO\<rparr>))"

fun run_commands :: "env \<Rightarrow> string list list \<Rightarrow> world \<Rightarrow> int \<times> world" where
  "run_commands e [] w = (0, w)"
| "run_commands e (c # cs) w =
     (case run_command e c w of (rc, w1) \<Rightarrow> if rc \<noteq> 0 then (-1, w1) else run_commands e cs w1)"

definition setup_commands :: "string \<Rightarrow> u32 \<Rightarrow> string list list" where
  "setup_commands ifname bitrate =
     [[''ip'', ''link'', ''set'', ''dev'', ifname, ''down''],
      [''ip'', ''link'', ''set'', ''dev'', ifname, ''type'', ''can'', ''bitrate'',
       trunc_buf 16 (show_u (unat bitrate)), ''restart-ms'', ''100''],
      [''ip'', ''link'', ''set'', ''dev'', ifname, ''up''],
      [''sudo'', ''gpioset'', ''gpiochip0'', ''37=0'']]"

definition can_bus_configure_interface :: "env \<Rightarrow> string \<Rightarrow> u32 \<Rightarrow> world \<Rightarrow> int \<times> world" where
  "can_bus_configure_interface e ifname bitrate w =
     (if ifname = [] \<or> bitrate = 0 then (-1, w\<lparr>errno := EINVAL\<rparr>)
      else run_commands e (setup_commands ifname bitrate) w)"

text \<open>\<^verbatim>\<open>SysIfIndex\<close> returns the interface index or a negative number; the option set by
  \<^verbatim>\<open>setsockopt\<close> is not checked and does not matter further.  \<^verbatim>\<open>ifr_name\<close> has 16 bytes.\<close>

definition can_bus_open :: "env \<Rightarrow> string \<Rightarrow> world \<Rightarrow> int \<times> world" where
  "can_bus_open e ifname w =
     (if ifname = [] then (-1, w\<lparr>errno := EINVAL\<rparr>)
      else case sys e SysSocket w of (fd, w1) \<Rightarrow>
        if fd < 0 then (-1, w1)
        else case sys e (SysIfIndex fd (trunc_buf 16 ifname)) w1 of (idx, w2) \<Rightarrow>
          if idx < 0 then (-1, snd (sys e (SysClose fd) w2))
          else case sys e (SysBind fd idx) w2 of (rc, w3) \<Rightarrow>
            if rc < 0 then (-1, snd (sys e (SysClose fd) w3)) else (fd, w3))"

definition can_bus_close :: "env \<Rightarrow> world \<Rightarrow> world" where
  "can_bus_close e w =
     (if can_fd (app w) < 0 then w
      else (snd (sys e (SysClose (can_fd (app w))) w))\<lparr>app := (app w)\<lparr>can_fd := -1\<rparr>\<rparr>)"

section \<open>Sending\<close>

definition sizeof_can_frame :: int where "sizeof_can_frame = 16"

definition command_frame :: "u32 \<Rightarrow> u16 \<Rightarrow> u16 \<Rightarrow> can_frame" where
  "command_frame i value duration_ms = \<lparr>can_id = i, can_dlc = 8,
     frame_data = [ucast (value AND 0xFF), ucast (drop_bit 8 value AND 0xFF),
                   ucast (duration_ms AND 0xFF), ucast (drop_bit 8 duration_ms AND 0xFF),
                   0, 0, 0, 0]\<rparr>"

definition can_bus_send_command :: "env \<Rightarrow> int \<Rightarrow> u32 \<Rightarrow> u16 \<Rightarrow> u16 \<Rightarrow> world \<Rightarrow> int \<times> world" where
  "can_bus_send_command e fd i value duration_ms w =
     (if fd < 0 \<or> i > 0x7FF then (-1, w\<lparr>errno := EINVAL\<rparr>)
      else
        let frame = command_frame i value duration_ms in
        case can_write e (trace w) frame of (written, err) \<Rightarrow>
          let w1 = log_event (EvCanWrite fd frame written) w;
              w2 = (if written < 0 then w1\<lparr>errno := err\<rparr> else w1)
          in (if written = sizeof_can_frame then 0 else -1, w2))"

section \<open>Heartbeat\<close>

definition HEARTBEAT_CAN_ID :: u32 where "HEARTBEAT_CAN_ID = 0x001"

definition HEARTBEAT_VALUE :: u16 where "HEARTBEAT_VALUE = 0x0001"

definition HEARTBEAT_PERIOD_MS :: u64 where "HEARTBEAT_PERIOD_MS = 1000"

definition heartbeat_now_ms :: "env \<Rightarrow> world \<Rightarrow> u64 \<times> world" where
  "heartbeat_now_ms e w = (case clock_gettime e (trace w) CLOCK_MONOTONIC of (rc, sec, nsec) \<Rightarrow>
     let t = (if rc \<noteq> 0 then 0 else sec * 1000 + nsec div 1000000)
     in (t, log_event (EvClock CLOCK_MONOTONIC t) w))"

definition heartbeat_send :: "env \<Rightarrow> int \<Rightarrow> world \<Rightarrow> int \<times> world" where
  "heartbeat_send e fd w =
     (if fd < 0 then (-1, w\<lparr>errno := EINVAL\<rparr>)
      else can_bus_send_command e fd HEARTBEAT_CAN_ID HEARTBEAT_VALUE 0 w)"

section \<open>Receiving\<close>

text \<open>The return code, the frame when it is 1, and the new world.\<close>

definition can_bus_read_frame :: "int \<Rightarrow> world \<Rightarrow> int \<times> can_frame option \<times> world" where
  "can_bus_read_frame fd w =
     (if fd < 0 then (-1, None, w\<lparr>errno := EINVAL\<rparr>)
      else case rxq w of
          [] \<Rightarrow> (0, None, w\<lparr>errno := EAGAIN\<rparr>)
        | RdFrame f # q \<Rightarrow> (1, Some f, w\<lparr>rxq := q\<rparr>)
        | RdShort # q \<Rightarrow> (-1, None, w\<lparr>rxq := q\<rparr>)
        | RdError err # q \<Rightarrow> (if err = EAGAIN then 0 else -1, None, w\<lparr>rxq := q, errno := err\<rparr>))"

definition CAN_FLAGS :: u32 where "CAN_FLAGS = 0x20000000 OR 0x40000000 OR 0x80000000"

definition frame_value :: "can_frame \<Rightarrow> u16" where
  "frame_value f =
     (if can_dlc f \<ge> 2 then ucast (frame_data f ! 0) OR push_bit 8 (ucast (frame_data f ! 1)) else 0)"

definition can_bus_store_rx :: "env \<Rightarrow> can_frame \<Rightarrow> world \<Rightarrow> world" where
  "can_bus_store_rx e frame w =
     (if can_id frame AND CAN_FLAGS \<noteq> 0 then w
      else
        let i = can_id frame AND 0x7FF;
            value = frame_value frame;
            a = app w;
            w1 = w\<lparr>app := a\<lparr>can_values := (can_values a)[unat i := uint value],
                             can_dirty := (can_dirty a)[unat i := True]\<rparr>\<rparr>
        in logger_printf e ''CAN_RX'' (show_03x i @ ''#'' @ show_04x value) w1)"

section \<open>Formatting what changed\<close>

definition dirty_entry :: "nat \<Rightarrow> int \<Rightarrow> string" where
  "dirty_entry i v = show_03x (of_nat i) @ ''#'' @ show_04x (word_of_int v) @ ''|''"

fun format_loop :: "nat \<Rightarrow> int list \<Rightarrow> nat list \<Rightarrow> string \<Rightarrow> bool list \<Rightarrow> string \<times> bool list" where
  "format_loop cap vs [] buf dirty = (buf, dirty)"
| "format_loop cap vs (i # is) buf dirty =
     (if \<not> dirty ! i \<or> vs ! i < 0 then format_loop cap vs is buf dirty
      else if length (dirty_entry i (vs ! i)) \<ge> cap - length buf then (buf, dirty)
      else format_loop cap vs is (buf @ dirty_entry i (vs ! i)) (dirty[i := False]))"

text \<open>The returned length is the length of the text.\<close>

definition can_bus_format_dirty :: "nat \<Rightarrow> world \<Rightarrow> string \<times> world" where
  "can_bus_format_dirty capacity w =
     (if capacity = 0 then ([], w)
      else case format_loop capacity (can_values (app w)) [0..<APP_CAN_ID_COUNT] [] (can_dirty (app w)) of
        (buf, dirty) \<Rightarrow> (butlast buf, w\<lparr>app := (app w)\<lparr>can_dirty := dirty\<rparr>\<rparr>))"


section \<open>What the operations touch\<close>

lemma sys_frame [simp]:
  "app (snd (sys e op w)) = app w" "logger (snd (sys e op w)) = logger w"
  "worker (snd (sys e op w)) = worker w" "rxq (snd (sys e op w)) = rxq w"
  "can_tx (trace (snd (sys e op w))) = can_tx (trace w)" "ws_tx (trace (snd (sys e op w))) = ws_tx (trace w)"
  "writes (trace (snd (sys e op w))) = writes (trace w)"
  "sys_log (trace (snd (sys e op w))) = sys_log (trace w) @ [(op, fst (sys e op w))]"
  by (simp_all add: sys_def Let_def)

lemma quiet_run_command [simp, intro]: "quiet w (snd (run_command e argv w))"
  by (simp add: run_command_def quiet_unfold split: option.splits)

lemma quiet_run_commands [simp, intro]: "quiet w (snd (run_commands e cs w))"
  by (induction cs arbitrary: w) (auto simp: case_prod_beta intro: quiet_trans)

lemma quiet_heartbeat_now [simp, intro]: "quiet w (snd (heartbeat_now_ms e w))"
  by (simp add: heartbeat_now_ms_def quiet_unfold)

lemma quiet_errno [simp, intro]: "quiet w (w\<lparr>errno := n\<rparr>)"
  by (simp add: quiet_unfold)

lemmas quiet_call_frame [simp] = quietD [OF quiet_run_commands] quietD [OF quiet_heartbeat_now]

lemma send_command_frame [simp]:
  "app (snd (can_bus_send_command e fd i v d w)) = app w"
  "logger (snd (can_bus_send_command e fd i v d w)) = logger w"
  "worker (snd (can_bus_send_command e fd i v d w)) = worker w"
  "dir (snd (can_bus_send_command e fd i v d w)) = dir w"
  "rxq (snd (can_bus_send_command e fd i v d w)) = rxq w"
  "ws_tx (trace (snd (can_bus_send_command e fd i v d w))) = ws_tx (trace w)"
  "sys_log (trace (snd (can_bus_send_command e fd i v d w))) = sys_log (trace w)"
  by (simp_all add: can_bus_send_command_def Let_def split: prod.splits)

text \<open>A call hands the kernel exactly one frame when the descriptor is open and the identifier is a
  standard one, and nothing otherwise.\<close>

lemma send_command_tx [tx_simps]:
  "can_tx (trace (snd (can_bus_send_command e fd i v d w)))
    = can_tx (trace w) @ (if fd < 0 \<or> i > 0x7FF then [] else [command_frame i v d])"
  by (simp add: can_bus_send_command_def Let_def split: prod.splits)

text \<open>The return code is 0 exactly when the frame was written whole.\<close>

lemma send_command_writes:
  assumes "0 \<le> fd" and "i \<le> 0x7FF" and "n = fst (can_write e (trace w) (command_frame i v d))"
  shows "writes (trace (snd (can_bus_send_command e fd i v d w))) = writes (trace w) @ [(command_frame i v d, n)]"
    and "fst (can_bus_send_command e fd i v d w) = (if n = 16 then 0 else -1)"
  using assms by (simp_all add: can_bus_send_command_def Let_def case_prod_beta sizeof_can_frame_def not_less [symmetric])

lemma send_command_rc: "fst (can_bus_send_command e fd i v d w) \<in> {0, -1}"
  by (simp add: can_bus_send_command_def Let_def split: prod.splits)

lemma send_command_ok:
  assumes "fst (can_bus_send_command e fd i v d w) = 0"
  shows "0 \<le> fd" and "i \<le> 0x7FF"
    and "can_tx (trace (snd (can_bus_send_command e fd i v d w))) = can_tx (trace w) @ [command_frame i v d]"
proof -
  have "\<not> (fd < 0 \<or> i > 0x7FF)" using assms by (auto simp: can_bus_send_command_def)
  then show "0 \<le> fd" and "i \<le> 0x7FF" by auto
  then show "can_tx (trace (snd (can_bus_send_command e fd i v d w))) = can_tx (trace w) @ [command_frame i v d]"
    by (auto simp: send_command_tx)
qed

text \<open>Frames the controllers on the bus expect: a standard identifier, eight data bytes, the upper
  four of them zero.\<close>

definition valid_frame :: "can_frame \<Rightarrow> bool" where
  "valid_frame f \<longleftrightarrow> can_id f \<le> 0x7FF \<and> can_dlc f = 8 \<and> length (frame_data f) = 8 \<and>
     drop 4 (frame_data f) = [0, 0, 0, 0]"

lemma command_frame_valid [simp]: "i \<le> 0x7FF \<Longrightarrow> valid_frame (command_frame i v d)"
  by (simp add: valid_frame_def command_frame_def)

lemma send_command_valid:
  "list_all valid_frame (can_tx (trace w)) \<Longrightarrow>
   list_all valid_frame (can_tx (trace (snd (can_bus_send_command e fd i v d w))))"
  by (auto simp: send_command_tx)

section \<open>Encoding and decoding\<close>

text \<open>An encoder with a partial decoder that recovers every valid value.\<close>

locale codec =
  fixes enc :: "'a \<Rightarrow> 'b" and dec :: "'b \<Rightarrow> 'a option" and valid :: "'a \<Rightarrow> bool"
  assumes dec_enc: "valid x \<Longrightarrow> dec (enc x) = Some x"
begin

lemma enc_inj: "valid x \<Longrightarrow> valid y \<Longrightarrow> enc x = enc y \<longleftrightarrow> x = y"
  using dec_enc by (metis option.inject)

lemma dec_enc_list: "list_all valid xs \<Longrightarrow> map dec (map enc xs) = map Some xs"
  by (induction xs) (simp_all add: dec_enc)

end

text \<open>The duration travels in bytes 2 and 3.  A receiver that decodes like \<^verbatim>\<open>can_bus_store_rx\<close> reads
  the value back.\<close>

definition frame_duration :: "can_frame \<Rightarrow> u16" where
  "frame_duration f = ucast (frame_data f ! 2) OR push_bit 8 (ucast (frame_data f ! 3))"

lemma frame_value_command [simp]: "frame_value (command_frame i v d) = v"
  using u16_hi_lo[of v] by (simp add: frame_value_def command_frame_def)

lemma frame_duration_command [simp]: "frame_duration (command_frame i v d) = d"
  using u16_hi_lo[of d] by (simp add: frame_duration_def command_frame_def)

lemma can_id_command [simp]: "can_id (command_frame i v d) = i"
  by (simp add: command_frame_def)

definition decode_command :: "can_frame \<Rightarrow> (u32 \<times> u16 \<times> u16) option" where
  "decode_command f = (if can_id f AND CAN_FLAGS \<noteq> 0 then None
     else Some (can_id f AND 0x7FF, frame_value f, frame_duration f))"

lemma standard_id_bits:
  assumes "(i :: u32) \<le> 0x7FF"
  shows "i AND 0x7FF = i" and "i AND CAN_FLAGS = 0"
proof -
  have "(0x7FF :: u32) = mask 11" by (simp add: mask_eq_exp_minus_1)
  moreover have "take_bit 11 i = i"
    using assms by (simp add: word_unat_eq_iff unsigned_take_bit_eq take_bit_nat_eq_self_iff word_le_nat_alt)
  ultimately show m: "i AND 0x7FF = i" by (simp add: take_bit_eq_mask)
  have "i AND CAN_FLAGS = (i AND 0x7FF) AND CAN_FLAGS" by (simp add: m)
  also have "\<dots> = i AND (0x7FF AND CAN_FLAGS)" by (simp add: ac_simps)
  also have "(0x7FF :: u32) AND CAN_FLAGS = 0" by (simp add: CAN_FLAGS_def)
  finally show "i AND CAN_FLAGS = 0" by simp
qed

interpretation frame: codec "\<lambda>(i, v, d). command_frame i v d" decode_command
  "\<lambda>(i, v, d). i \<le> 0x7FF"
  by unfold_locales
    (auto simp: decode_command_def standard_id_bits)


section \<open>The reporting loop\<close>

text \<open>The identifiers waiting to be reported, in ascending order, with their values.\<close>

definition reportable :: "int list \<Rightarrow> bool list \<Rightarrow> nat \<Rightarrow> bool" where
  "reportable vs dirty i \<longleftrightarrow> dirty ! i \<and> \<not> vs ! i < 0"

definition pending_ids :: "app_context \<Rightarrow> nat list" where
  "pending_ids a = filter (reportable (can_values a) (can_dirty a)) [0..<APP_CAN_ID_COUNT]"

definition can_tables_ok :: "app_context \<Rightarrow> bool" where
  "can_tables_ok a \<longleftrightarrow> length (can_values a) = APP_CAN_ID_COUNT \<and> length (can_dirty a) = APP_CAN_ID_COUNT"

definition clear_all :: "nat list \<Rightarrow> bool list \<Rightarrow> bool list" where
  "clear_all is dirty = fold (\<lambda>i d. d[i := False]) is dirty"

lemma clear_all_simps [simp]:
  "clear_all [] dirty = dirty" "clear_all (i # is) dirty = clear_all is (dirty[i := False])"
  "length (clear_all is dirty) = length dirty"
  by (simp_all add: clear_all_def) (induction "is" arbitrary: dirty, simp_all)

lemma clear_all_nth: "j < length dirty \<Longrightarrow> clear_all is dirty ! j \<longleftrightarrow> dirty ! j \<and> j \<notin> set is"
proof (induction "is" arbitrary: dirty)
  case Nil
  then show ?case by simp
next
  case (Cons i "is")
  then show ?case by (cases "i = j") auto
qed

lemma length_dirty_entry [simp]: "i < 0x800 \<Longrightarrow> length (dirty_entry i v) = 9"
  by (simp add: dirty_entry_def length_show_03x word_le_nat_alt unat_of_nat take_bit_nat_eq_self)

text \<open>Each entry takes nine bytes, so a buffer of \<open>cap\<close> bytes has room for \<open>(cap - 1) div 9\<close>.\<close>

definition room :: "nat \<Rightarrow> nat" where
  "room cap = (cap - 1) div 9"

lemma format_loop_spec:
  assumes "\<forall>i \<in> set is. i < 0x800" and "distinct is" and "\<forall>i \<in> set is. i < length dirty"
    and "length buf = 9 * m" and "m \<le> room cap" and "0 < cap"
  shows "format_loop cap vs is buf dirty =
    (let rep = take (room cap - m) (filter (reportable vs dirty) is)
     in (buf @ concat (map (\<lambda>i. dirty_entry i (vs ! i)) rep), clear_all rep dirty))"
  using assms
proof (induction cap vs "is" buf dirty arbitrary: m rule: format_loop.induct)
  case (1 cap vs buf dirty)
  then show ?case by simp
next
  case (2 cap vs i "is" buf dirty)
  show ?case
  proof (cases "reportable vs dirty i")
    case False
    then have "\<not> dirty ! i \<or> vs ! i < 0" by (simp add: reportable_def)
    moreover note "2.IH"(1)[OF this, of m]
    ultimately show ?thesis using "2.prems" False by simp
  next
    case True
    then have nd: "\<not> (\<not> dirty ! i \<or> vs ! i < 0)" by (simp add: reportable_def)
    have len: "length (dirty_entry i (vs ! i)) = 9" using "2.prems"(1) by simp
    show ?thesis
    proof (cases "m = room cap")
      case full: True
      then have "9 \<ge> cap - length buf" using "2.prems"(4,6) by (simp add: room_def)
      with nd len full show ?thesis by simp
    next
      case False
      then have less: "Suc m \<le> room cap" using "2.prems"(5) by simp
      then have fits: "\<not> length (dirty_entry i (vs ! i)) \<ge> cap - length buf"
        using "2.prems"(4,6) len by (simp add: room_def)
      have same: "filter (reportable vs (dirty[i := False])) is = filter (reportable vs dirty) is"
      proof (rule filter_cong [OF refl])
        fix j
        assume "j \<in> set is"
        with "2.prems"(2) have "i \<noteq> j" by auto
        then show "reportable vs (dirty[i := False]) j \<longleftrightarrow> reportable vs dirty j"
          by (simp add: reportable_def)
      qed
      have "room cap - m = Suc (room cap - Suc m)" using less by simp
      with "2.IH"(2)[OF nd fits, of "Suc m"] show ?thesis
        using "2.prems" nd fits less len True same by (simp add: Let_def)
    qed
  qed
qed

lemma format_dirty_spec:
  assumes "can_tables_ok (app w)" and "0 < cap"
  shows "can_bus_format_dirty cap w =
    (let rep = take (room cap) (pending_ids (app w))
     in (butlast (concat (map (\<lambda>i. dirty_entry i (can_values (app w) ! i)) rep)),
         w\<lparr>app := (app w)\<lparr>can_dirty := clear_all rep (can_dirty (app w))\<rparr>\<rparr>))"
  using assms format_loop_spec[of "[0..<APP_CAN_ID_COUNT]" "can_dirty (app w)" "[]" 0 cap "can_values (app w)"]
  by (simp add: can_bus_format_dirty_def can_tables_ok_def pending_ids_def APP_CAN_ID_COUNT_def Let_def)

lemma set_pending_ids: "set (pending_ids a) \<subseteq> {..<APP_CAN_ID_COUNT}"
  by (auto simp: pending_ids_def)

lemma pending_after_clear:
  assumes "can_tables_ok a"
  shows "pending_ids (a\<lparr>can_dirty := clear_all (take k (pending_ids a)) (can_dirty a)\<rparr>) = drop k (pending_ids a)"
proof -
  let ?p = "pending_ids a"
  have dist: "distinct ?p" by (simp add: pending_ids_def)
  have len: "length (can_dirty a) = APP_CAN_ID_COUNT" using assms by (simp add: can_tables_ok_def)
  have "pending_ids (a\<lparr>can_dirty := clear_all (take k ?p) (can_dirty a)\<rparr>)
      = filter (\<lambda>i. i \<notin> set (take k ?p)) ?p"
    using len by (auto simp: pending_ids_def reportable_def clear_all_nth intro!: filter_cong)
  also have "\<dots> = filter (\<lambda>i. i \<notin> set (take k ?p)) (take k ?p @ drop k ?p)" by simp
  also have "\<dots> = filter (\<lambda>i. i \<notin> set (take k ?p)) (drop k ?p)"
    unfolding filter_append by simp
  also have "\<dots> = drop k ?p"
    using dist by (subst filter_True) (auto dest: set_take_disj_set_drop_if_distinct [of ?p k k])
  finally show ?thesis .
qed

section \<open>Descriptors and processes in the trace\<close>

text \<open>The descriptors opened and not yet closed, newest first, and the commands run with their status.\<close>

fun open_fds :: "trace \<Rightarrow> int list" where
  "open_fds [] = []"
| "open_fds (EvSys SysSocket r # t) = (if r \<ge> 0 then r # open_fds t else open_fds t)"
| "open_fds (EvSys SysEpollCreate r # t) = (if r \<ge> 0 then r # open_fds t else open_fds t)"
| "open_fds (EvSys SysTimerCreate r # t) = (if r \<ge> 0 then r # open_fds t else open_fds t)"
| "open_fds (EvSys (SysClose fd) r # t) = remove1 fd (open_fds t)"
| "open_fds (_ # t) = open_fds t"

fun spawn_log :: "trace \<Rightarrow> (string list \<times> wait_status option) list" where
  "spawn_log [] = []"
| "spawn_log (EvSpawn argv st # t) = spawn_log t @ [(argv, st)]"
| "spawn_log (_ # t) = spawn_log t"

lemma run_commands_log:
  "case run_commands e cs w of (rc, w') \<Rightarrow>
     if rc = 0 then spawn_log (trace w') = spawn_log (trace w) @ map (\<lambda>c. (c, Some (Exited 0))) cs
     else rc = -1 \<and> (\<exists>k < length cs. \<exists>st. st \<noteq> Some (Exited 0) \<and> spawn_log (trace w') = spawn_log (trace w)
       @ map (\<lambda>c. (c, Some (Exited 0))) (take k cs) @ [(cs ! k, st)])"
proof (induction cs arbitrary: w)
  case Nil
  then show ?case by simp
next
  case (Cons c cs)
  obtain rc w1 where r: "run_command e c w = (rc, w1)" by fastforce
  show ?case
  proof (cases "rc = 0")
    case False
    then have "rc = -1 \<and> (\<exists>st. st \<noteq> Some (Exited 0) \<and> spawn_log (trace w1) = spawn_log (trace w) @ [(c, st)])"
      using r by (auto simp: run_command_def Let_def split: option.splits if_splits)
    then show ?thesis using r False by (auto intro!: exI [of _ 0])
  next
    case True
    then have l: "spawn_log (trace w1) = spawn_log (trace w) @ [(c, Some (Exited 0))]"
      using r by (auto simp: run_command_def Let_def split: option.splits if_splits)
    obtain rc' w' where r': "run_commands e cs w1 = (rc', w')" by fastforce
    show ?thesis
    proof (cases "rc' = 0")
      case ok: True
      then show ?thesis using Cons.IH[of w1] l r r' True by simp
    next
      case False
      then obtain k st where k: "rc' = -1" "k < length cs" "st \<noteq> Some (Exited 0)"
        "spawn_log (trace w') = spawn_log (trace w1) @ map (\<lambda>c. (c, Some (Exited 0))) (take k cs) @ [(cs ! k, st)]"
        using Cons.IH[of w1] r' by auto
      then have "Suc k < length (c # cs)" "spawn_log (trace w') = spawn_log (trace w)
          @ map (\<lambda>c. (c, Some (Exited 0))) (take (Suc k) (c # cs)) @ [((c # cs) ! Suc k, st)]"
        using l by simp_all
      with k(1,3) show ?thesis using r r' True by (simp only: run_commands.simps) force
    qed
  qed
qed

section \<open>Properties\<close>

lemma length_show_u32: "length (show_u (unat (b :: u32))) \<le> 10"
proof -
  have "unat b < 10 ^ 10" using unsigned_less[of b, where 'a = nat] by simp
  then show ?thesis unfolding show_u_def by (intro length_digits_in) simp_all
qed

text \<open>C18.  Command frames carry their three fields without loss: a standard identifier makes a valid
  frame, which the receiver decodes to the same identifier, value and duration; so distinct commands
  give distinct frames.\<close>

theorem frame_roundtrip:
  assumes "i \<le> 0x7FF" and "i' \<le> 0x7FF"
  shows "valid_frame (command_frame i v d) \<and> decode_command (command_frame i v d) = Some (i, v, d) \<and>
    (command_frame i v d = command_frame i' v' d' \<longleftrightarrow> i = i' \<and> v = v' \<and> d = d')"
  using frame.dec_enc[of "(i, v, d)"] frame.enc_inj[of "(i, v, d)" "(i', v', d')"] assms by simp

theorem frame_roundtrip_witness:
  "decode_command (command_frame 0x709 0x99 1000) = Some (0x709, 0x99, 1000)"
  using frame_roundtrip[of "0x709" 0 "0x99" 1000 0 0] by simp

lemma standard_part_lt: "unat ((x :: u32) AND 0x7FF) < APP_CAN_ID_COUNT"
proof -
  have "(x AND 0x7FF) \<le> 0x7FF" by (rule word_and_le1)
  then show ?thesis by (simp add: word_le_nat_alt APP_CAN_ID_COUNT_def)
qed

lemma store_rx_app:
  "app (can_bus_store_rx e f w) = (if can_id f AND CAN_FLAGS \<noteq> 0 then app w
    else (app w)\<lparr>can_values := (can_values (app w))[unat (can_id f AND 0x7FF) := uint (frame_value f)],
                can_dirty := (can_dirty (app w))[unat (can_id f AND 0x7FF) := True]\<rparr>)"
  by (simp add: can_bus_store_rx_def Let_def)

text \<open>C19.  Receiving: a frame with an error, remote or extended flag is ignored; any other updates the
  last value of its identifier, and of no other, and adds the identifier to those to be reported.\<close>

theorem store_rx_updates:
  assumes "can_tables_ok (app w)" and "i = unat (can_id f AND 0x7FF)"
  shows "if can_id f AND CAN_FLAGS \<noteq> 0 then can_bus_store_rx e f w = w
    else can_values (app (can_bus_store_rx e f w)) ! i = uint (frame_value f) \<and>
      (\<forall>j. j \<noteq> i \<longrightarrow> can_values (app (can_bus_store_rx e f w)) ! j = can_values (app w) ! j) \<and>
      set (pending_ids (app (can_bus_store_rx e f w))) = insert i (set (pending_ids (app w))) \<and>
      can_tables_ok (app (can_bus_store_rx e f w))"
proof (cases "can_id f AND CAN_FLAGS \<noteq> 0")
  case True
  then show ?thesis by (simp add: can_bus_store_rx_def)
next
  case False
  have i: "i < APP_CAN_ID_COUNT" using standard_part_lt assms(2) by simp
  have len: "length (can_values (app w)) = APP_CAN_ID_COUNT" "length (can_dirty (app w)) = APP_CAN_ID_COUNT"
    using assms(1) by (simp_all add: can_tables_ok_def)
  let ?a = "app (can_bus_store_rx e f w)"
  have tabs: "can_values ?a = (can_values (app w))[i := uint (frame_value f)]"
    "can_dirty ?a = (can_dirty (app w))[i := True]"
    using False assms(2) by (simp_all add: store_rx_app)
  have "reportable (can_values ?a) (can_dirty ?a) j \<longleftrightarrow> j = i \<or> reportable (can_values (app w)) (can_dirty (app w)) j"
    if "j < APP_CAN_ID_COUNT" for j
    using that len i by (cases "j = i") (simp_all add: tabs reportable_def)
  then have "set (pending_ids ?a) = insert i (set (pending_ids (app w)))"
    using i by (auto simp: pending_ids_def)
  then show ?thesis using False len i by (simp add: tabs can_tables_ok_def)
qed

lemma sample_tables_ok: "can_tables_ok (app sample_world)"
  by (simp add: sample_simps can_tables_ok_def)

theorem store_rx_updates_witness:
  "can_values (app (can_bus_store_rx sample_env (command_frame 5 0x1234 0) sample_world)) ! 5 = 0x1234"
proof -
  have "5 = unat (can_id (command_frame 5 0x1234 0) AND 0x7FF)" by simp
  from store_rx_updates[OF sample_tables_ok this, of sample_env] show ?thesis
    by (simp add: CAN_FLAGS_def)
qed

definition report_field :: "app_context \<Rightarrow> nat \<Rightarrow> string" where
  "report_field a i = show_03x (of_nat i) @ ''#'' @ show_04x (word_of_int (can_values a ! i))"

lemma report_field_token: "report_field a i \<noteq> []" "CHR ''|'' \<notin> set (report_field a i)"
  using show_no_delims(1)[of "CHR ''|''" "of_nat i" "word_of_int (can_values a ! i)" 0]
  by (auto simp: report_field_def)

lemma strtok_report:
  "strtok_all CHR ''|'' (butlast (concat (map (\<lambda>i. dirty_entry i (can_values a ! i)) ks))) = map (report_field a) ks"
proof (induction ks)
  case Nil
  then show ?case by simp
next
  case (Cons i ks)
  have e: "dirty_entry i (can_values a ! i) = report_field a i @ [CHR ''|'']"
    by (simp add: dirty_entry_def report_field_def)
  show ?case
  proof (cases ks)
    case Nil
    then show ?thesis by (simp add: e strtok_all_token report_field_token)
  next
    case (Cons j js)
    then have "concat (map (\<lambda>i. dirty_entry i (can_values a ! i)) ks) \<noteq> []" by (simp add: dirty_entry_def)
    then have "butlast (dirty_entry i (can_values a ! i) @ concat (map (\<lambda>i. dirty_entry i (can_values a ! i)) ks))
        = report_field a i @ CHR ''|'' # butlast (concat (map (\<lambda>i. dirty_entry i (can_values a ! i)) ks))"
      by (simp only: butlast_append e) simp
    then show ?thesis using Cons.IH by (simp add: strtok_all_token report_field_token)
  qed
qed

lemma length_report:
  "list_all (\<lambda>i. i < 0x800) ks \<Longrightarrow> length (concat (map (\<lambda>i. dirty_entry i (vs ! i)) ks)) = 9 * length ks"
  by (induction ks) simp_all

text \<open>C20.  Reporting: a buffer of \<open>cap\<close> bytes takes the first \<open>(cap - 1) div 9\<close> pending identifiers in
  ascending order, one field \<^verbatim>\<open>iii#vvvv\<close> each, separated by bars and never cut; exactly those are no
  longer pending afterwards, the values stay, and the text with its terminator fits the buffer.\<close>

theorem format_dirty_reports:
  assumes "can_tables_ok (app w)" and "0 < cap"
  shows "case can_bus_format_dirty cap w of (text, w') \<Rightarrow>
    strtok_all CHR ''|'' text = map (report_field (app w)) (take ((cap - 1) div 9) (pending_ids (app w))) \<and>
    pending_ids (app w') = drop ((cap - 1) div 9) (pending_ids (app w)) \<and>
    can_values (app w') = can_values (app w) \<and> length text < cap"
proof -
  let ?ids = "take (room cap) (pending_ids (app w))"
  have "set ?ids \<subseteq> {..<0x800}"
    using set_pending_ids[of "app w"] set_take_subset[of "room cap"] by (fastforce simp: APP_CAN_ID_COUNT_def)
  then have "length (concat (map (\<lambda>i. dirty_entry i (can_values (app w) ! i)) ?ids)) = 9 * length ?ids"
    by (intro length_report) (auto simp: list_all_iff)
  then have "length (butlast (concat (map (\<lambda>i. dirty_entry i (can_values (app w) ! i)) ?ids))) < cap"
    using assms(2) by (simp add: room_def min_def) linarith
  then show ?thesis
    using format_dirty_spec[OF assms] pending_after_clear[OF assms(1), of "room cap"]
    by (simp add: Let_def strtok_report room_def)
qed

lemma sample_pending: "pending_ids (app sample_world) = []"
  by (simp add: pending_ids_def reportable_def sample_simps filter_False)

theorem format_dirty_reports_witness:
  "length (fst (can_bus_format_dirty 8192 sample_world)) < 8192"
  using format_dirty_reports[OF sample_tables_ok, of 8192] by (simp add: case_prod_beta)

text \<open>C32.  Opening the CAN socket leaks no descriptor: on success exactly the returned descriptor is
  open in addition, and on every failure (name, socket, interface lookup, bind) none is.\<close>

theorem open_leaks_nothing:
  "case can_bus_open e ifname w of (fd, w') \<Rightarrow>
     if fd < 0 then open_fds (trace w') = open_fds (trace w)
     else open_fds (trace w') = fd # open_fds (trace w)"
  by (simp add: can_bus_open_def sys_def Let_def)

text \<open>C33.  Configuring the interface takes it down, sets type and bitrate (the number is never cut),
  brings it up and switches the transceiver on, in this order; it returns 0 exactly when all four
  commands exit with status 0, and stops at the first that does not.\<close>

theorem interface_setup_order:
  assumes "ifname \<noteq> []" and "bitrate \<noteq> 0"
    and "cmds = [[''ip'', ''link'', ''set'', ''dev'', ifname, ''down''],
      [''ip'', ''link'', ''set'', ''dev'', ifname, ''type'', ''can'', ''bitrate'', show_u (unat bitrate), ''restart-ms'', ''100''],
      [''ip'', ''link'', ''set'', ''dev'', ifname, ''up''],
      [''sudo'', ''gpioset'', ''gpiochip0'', ''37=0'']]"
  shows "case can_bus_configure_interface e ifname bitrate w of (rc, w') \<Rightarrow>
     if rc = 0 then spawn_log (trace w') = spawn_log (trace w) @ map (\<lambda>c. (c, Some (Exited 0))) cmds
     else rc = -1 \<and> (\<exists>k < 4. \<exists>st. st \<noteq> Some (Exited 0) \<and> spawn_log (trace w') = spawn_log (trace w)
       @ map (\<lambda>c. (c, Some (Exited 0))) (take k cmds) @ [(cmds ! k, st)])"
proof -
  have "trunc_buf 16 (show_u (unat bitrate)) = show_u (unat bitrate)"
    using length_show_u32[of bitrate] by (simp add: trunc_buf_def)
  then have c: "setup_commands ifname bitrate = cmds" by (simp add: setup_commands_def assms(3))
  have run: "can_bus_configure_interface e ifname bitrate w = run_commands e cmds w"
    using assms(1,2) by (simp add: can_bus_configure_interface_def c)
  have "length cmds = 4" by (simp add: assms(3))
  from run_commands_log[where e = e and cs = cmds and w = w, unfolded this] show ?thesis unfolding run .
qed

theorem interface_setup_order_witness:
  "length (spawn_log (trace (snd (can_bus_configure_interface sample_env ''can0'' 500000 sample_world)))) = 4"
proof -
  have "fst (can_bus_configure_interface sample_env ''can0'' 500000 sample_world) = 0"
    by (simp add: can_bus_configure_interface_def setup_commands_def run_command_def sample_simps Let_def)
  then show ?thesis
    using interface_setup_order[where ifname = "''can0''" and bitrate = 500000 and e = sample_env and w = sample_world, OF _ _ refl]
    by (simp add: case_prod_beta sample_world_def)
qed

end
