(* ===== verification/WsText.thy ===== *)
theory WsText
  imports CanBus
begin

text \<open>
  The outgoing half of \<^verbatim>\<open>src/ws/ws_bridge.c\<close>: texts to one client and broadcasts to every client
  that has not switched to write-only mode.  Whether a client is connected and has finished its
  handshake is an answer of the WebSocket library.
\<close>

definition ws_ready :: "env \<Rightarrow> world \<Rightarrow> client \<Rightarrow> bool" where
  "ws_ready e w c \<longleftrightarrow> ws_connected e (trace w) c \<and> ws_handshake_done e (trace w) c"

definition ws_bridge_send_text :: "env \<Rightarrow> client \<Rightarrow> string \<Rightarrow> world \<Rightarrow> world" where
  "ws_bridge_send_text e c msg w =
     (if \<not> ws (app w) then w
      else if ws_ready e w c then log_event (EvSend c msg) w else w)"

fun broadcast_loop :: "env \<Rightarrow> string \<Rightarrow> app_client_ctx list \<Rightarrow> world \<Rightarrow> world" where
  "broadcast_loop e payload [] w = w"
| "broadcast_loop e payload (ctx # cs) w =
     broadcast_loop e payload cs
       (if ws_ready e w (ctx_client ctx) \<and> \<not> write_only ctx
        then log_event (EvSend (ctx_client ctx) payload) w else w)"

text \<open>The text a broadcast sends: with a timestamp it is printed into a buffer of \<open>strlen(msg) + 32\<close>
  bytes, on the stack up to 2048 bytes and from \<^verbatim>\<open>malloc\<close> beyond; when that fails the bare message
  goes out.\<close>

definition broadcast_payload :: "env \<Rightarrow> string \<Rightarrow> bool \<Rightarrow> world \<Rightarrow> string \<times> world" where
  "broadcast_payload e msg prefix_timestamp w =
     (if \<not> prefix_timestamp then (msg, w)
      else
        let needed = length msg + 32;
            ok = needed \<le> 2048 \<or> alloc_ok e (trace w);
            w1 = (if needed \<le> 2048 then w else log_event (EvAlloc ok) w)
        in if \<not> ok then (msg, w1)
           else case realtime_ns e w1 of (ns, w2) \<Rightarrow>
             (trunc_buf needed (show_u (unat ns) @ ''|'' @ msg), w2))"

definition ws_bridge_broadcast_text :: "env \<Rightarrow> string \<Rightarrow> bool \<Rightarrow> world \<Rightarrow> world" where
  "ws_bridge_broadcast_text e msg prefix_timestamp w =
     (case broadcast_payload e msg prefix_timestamp w of (payload, w1) \<Rightarrow>
        let w2 = logger_write e ''WS_TX'' payload w1
        in broadcast_loop e payload (clients (app w2)) w2)"

section \<open>Frame\<close>

lemma silent_canD:
  assumes "silent_can w w'"
  shows "app w' = app w" "worker w' = worker w" "rxq w' = rxq w"
    "can_tx (trace w') = can_tx (trace w)" "writes (trace w') = writes (trace w)"
    "sys_log (trace w') = sys_log (trace w)"
  using assms by (simp_all add: silent_can_def)

lemma silent_send_event [simp, intro]: "silent_can w (log_event (EvSend c m) w)"
  by (simp add: silent_can_def)

lemma silent_send_text [simp, intro]: "silent_can w (ws_bridge_send_text e c m w)"
  by (simp add: ws_bridge_send_text_def)

lemma silent_broadcast_loop [simp, intro]: "silent_can w (broadcast_loop e p cs w)"
  by (induction cs arbitrary: w) (auto intro: silent_can_trans)

lemma quiet_broadcast_payload [simp, intro]: "quiet w (snd (broadcast_payload e m b w))"
  by (simp add: broadcast_payload_def quiet_unfold frame_simps)

lemma silent_broadcast [simp, intro]: "silent_can w (ws_bridge_broadcast_text e m b w)"
proof -
  obtain p w1 where p: "broadcast_payload e m b w = (p, w1)" by fastforce
  have "silent_can w w1"
    using quiet_broadcast_payload[of w e m b] p by (auto dest: quiet_silent)
  also have "silent_can w1 (logger_write e ''WS_TX'' p w1)" by (rule quiet_silent) blast
  also have "silent_can \<dots> (broadcast_loop e p (clients (app \<dots>)) \<dots>)" by blast
  finally show ?thesis by (simp add: ws_bridge_broadcast_text_def p Let_def)
qed

lemmas ws_text_frame [simp] = silent_canD [OF silent_send_text] silent_canD [OF silent_broadcast]

section \<open>Who receives what\<close>

lemma send_text_tx [tx_simps]:
  "ws_tx (trace (ws_bridge_send_text e c m w))
    = ws_tx (trace w) @ (if ws (app w) \<and> ws_ready e w c then [(c, m)] else [])"
  by (simp add: ws_bridge_send_text_def)

text \<open>A broadcast reaches clients of the list that are not write-only, each with the same text.\<close>

lemma broadcast_loop_tx:
  "\<exists>cs'. ws_tx (trace (broadcast_loop e p cs w)) = ws_tx (trace w) @ map (\<lambda>c. (ctx_client c, p)) cs'
     \<and> set cs' \<subseteq> {c \<in> set cs. \<not> write_only c}"
proof (induction cs arbitrary: w)
  case Nil
  show ?case by (simp add: exI [of _ "[]"])
next
  case (Cons c cs)
  let ?go = "ws_ready e w (ctx_client c) \<and> \<not> write_only c"
  let ?w = "if ?go then log_event (EvSend (ctx_client c) p) w else w"
  from Cons.IH[of ?w] obtain cs' where
    "ws_tx (trace (broadcast_loop e p cs ?w)) = ws_tx (trace ?w) @ map (\<lambda>c. (ctx_client c, p)) cs'"
    "set cs' \<subseteq> {c \<in> set cs. \<not> write_only c}" by blast
  then show ?case
    by (intro exI [of _ "(if ?go then [c] else []) @ cs'"]) auto
qed

text \<open>The timestamp and separator always fit into the 32 spare bytes: the payload is never cut.\<close>

lemma length_show_u64: "length (show_u (unat (t :: u64))) \<le> 20"
proof -
  have "unat t < 10 ^ 20" using unsigned_less[of t, where 'a = nat] by simp
  then show ?thesis unfolding show_u_def by (intro length_digits_in) simp_all
qed

lemma payload_not_cut:
  "trunc_buf (length msg + 32) (show_u (unat (t :: u64)) @ ''|'' @ msg) = show_u (unat t) @ ''|'' @ msg"
  using length_show_u64[of t] by (simp add: trunc_buf_def)

section \<open>Properties\<close>

lemma broadcast_loop_exact:
  assumes "\<And>t c. (ws_connected e t c \<and> ws_handshake_done e t c) = (c \<in> R)"
  shows "ws_tx (trace (broadcast_loop e p cs w)) = ws_tx (trace w)
    @ map (\<lambda>x. (ctx_client x, p)) (filter (\<lambda>x. ctx_client x \<in> R \<and> \<not> write_only x) cs)"
  by (induction cs arbitrary: w) (simp_all add: ws_ready_def assms)

lemma broadcast_exact:
  assumes "\<forall>t c. (ws_connected e t c \<and> ws_handshake_done e t c) = (c \<in> R)"
  shows "ws_tx (trace (ws_bridge_broadcast_text e msg prefix w)) = ws_tx (trace w)
    @ map (\<lambda>x. (ctx_client x, fst (broadcast_payload e msg prefix w)))
        (filter (\<lambda>x. ctx_client x \<in> R \<and> \<not> write_only x) (clients (app w)))"
proof -
  obtain p w1 where p: "broadcast_payload e msg prefix w = (p, w1)" by fastforce
  have q: "quiet w w1" using quiet_broadcast_payload[of w e msg prefix] p by simp
  show ?thesis
    using assms quietD[OF q]
    by (simp add: ws_bridge_broadcast_text_def p Let_def broadcast_loop_exact [where R = R])
qed

lemma payload_stamped:
  assumes "alloc_ok e (trace w)"
  shows "\<exists>ns. fst (broadcast_payload e msg True w) = show_u (unat (ns :: u64)) @ ''|'' @ msg"
  using assms by (auto simp: broadcast_payload_def Let_def case_prod_beta simp del: append_Cons
      intro!: exI payload_not_cut [simplified])

text \<open>C23.  A broadcast sends one text to every registered client that is ready and has not chosen
  write-only mode, in list order, and to no one else, provided no client's readiness changes meanwhile.\<close>

theorem broadcast_recipients:
  assumes "\<forall>t c. (ws_connected e t c \<and> ws_handshake_done e t c) = (c \<in> R)"
  shows "ws_tx (trace (ws_bridge_broadcast_text e msg prefix w)) = ws_tx (trace w)
    @ map (\<lambda>x. (ctx_client x, fst (broadcast_payload e msg prefix w)))
        (filter (\<lambda>x. ctx_client x \<in> R \<and> \<not> write_only x) (clients (app w)))"
  by (rule broadcast_exact [OF assms])

theorem broadcast_recipients_witness:
  "ws_tx (trace (ws_bridge_broadcast_text sample_env ''hi'' False
     (sample_world\<lparr>app := (app sample_world)\<lparr>clients :=
        [\<lparr>ctx_addr = 1, ctx_client = 7, write_only = True\<rparr>, \<lparr>ctx_addr = 2, ctx_client = 8, write_only = False\<rparr>]\<rparr>\<rparr>)))
   = [(8, ''hi'')]"
proof -
  have "\<forall>t c. (ws_connected sample_env t c \<and> ws_handshake_done sample_env t c) = (c \<in> UNIV)"
    by (simp add: sample_env_def)
  from broadcast_recipients[OF this] show ?thesis
    by (simp add: broadcast_payload_def sample_world_def)
qed

text \<open>C24.  The payload of a time-stamped broadcast is the time in nanoseconds, a bar and the whole
  message, never cut; only when the message needs more than the stack buffer and \<^verbatim>\<open>malloc\<close> fails does
  the bare message go out.\<close>

theorem timestamp_payload:
  "if 2048 < length msg + 32 \<and> \<not> alloc_ok e (trace w) then fst (broadcast_payload e msg True w) = msg
   else \<exists>ns. fst (broadcast_payload e msg True w) = show_u (unat (ns :: u64)) @ ''|'' @ msg"
  by (auto simp: broadcast_payload_def Let_def case_prod_beta simp del: append_Cons
      intro!: exI payload_not_cut [simplified])

end
