(* ===== verification/Wiggle.thy ===== *)
theory Wiggle
  imports WsText
begin

text \<open>
  The wiggle controller, \<^verbatim>\<open>src/control/wiggle.c\<close>: a table of sixteen slots, each driving one
  actuator back and forth between two values until it is stopped or its time is up.  A slot is
  named by its index in the table (the C code passes a pointer to it).
\<close>

section \<open>Operations\<close>

definition find_slot :: "app_context \<Rightarrow> u32 \<Rightarrow> nat option" where
  "find_slot a i = find_index (\<lambda>s. active s \<and> slot_id s = i) (wiggles a)"

definition alloc_slot :: "app_context \<Rightarrow> nat option" where
  "alloc_slot a = find_index (\<lambda>s. \<not> active s) (wiggles a)"

definition slot_at :: "nat \<Rightarrow> world \<Rightarrow> wiggle_command" where
  "slot_at k w = wiggles (app w) ! k"

definition set_slot :: "nat \<Rightarrow> wiggle_command \<Rightarrow> world \<Rightarrow> world" where
  "set_slot k s w = w\<lparr>app := (app w)\<lparr>wiggles := (wiggles (app w))[k := s]\<rparr>\<rparr>"

definition send_value :: "env \<Rightarrow> nat \<Rightarrow> u16 \<Rightarrow> world \<Rightarrow> world" where
  "send_value e k v w =
     (let w1 = set_slot k ((slot_at k w)\<lparr>current_value := v\<rparr>) w;
          i = slot_id (slot_at k w)
      in case can_bus_send_command e (can_fd (app w1)) i v 0 w1 of (rc, w2) \<Rightarrow>
           if rc = 0 then logger_printf e ''CAN_TX'' (show_03x i @ ''#'' @ show_04x v) w2 else w2)"

definition deactivate_slot :: "env \<Rightarrow> nat \<Rightarrow> bool \<Rightarrow> world \<Rightarrow> world" where
  "deactivate_slot e k send_exit_value w =
     (if \<not> active (slot_at k w) then w
      else set_slot k zero_wiggle
        (if send_exit_value then send_value e k (exit_value (slot_at k w)) w else w))"

definition wiggle_start ::
  "env \<Rightarrow> u32 \<Rightarrow> u16 \<Rightarrow> u16 \<Rightarrow> u16 \<Rightarrow> u32 \<Rightarrow> u32 \<Rightarrow> world \<Rightarrow> int \<times> world" where
  "wiggle_start e i sv ev xv period dur w =
     (if period = 0 \<or> i > 0x7FF then (-1, w)
      else
        case (case find_slot (app w) i of None \<Rightarrow> alloc_slot (app w) | Some k \<Rightarrow> Some k) of
          None \<Rightarrow> (-1, w)
        | Some k \<Rightarrow>
            (case monotonic_ms e w of (now, w1) \<Rightarrow>
               let w2 = set_slot k ((slot_at k w1)\<lparr>slot_id := i, start_value := sv, end_value := ev,
                          exit_value := xv, period_ms := period, total_duration_ms := dur,
                          active := True,
                          stop_time_ms := (if dur \<noteq> 0 then now + ucast dur else 0)\<rparr>) w1;
                   w3 = send_value e k sv w2
               in (0, set_slot k ((slot_at k w3)\<lparr>next_toggle_ms := now + ucast period\<rparr>) w3)))"

definition wiggle_stop :: "env \<Rightarrow> u32 \<Rightarrow> world \<Rightarrow> bool \<times> world" where
  "wiggle_stop e i w =
     (case find_slot (app w) i of
        None \<Rightarrow> (False, w)
      | Some k \<Rightarrow> (True, deactivate_slot e k True w))"

fun stop_all_loop :: "env \<Rightarrow> bool \<Rightarrow> nat list \<Rightarrow> nat \<Rightarrow> world \<Rightarrow> nat \<times> world" where
  "stop_all_loop e send [] n w = (n, w)"
| "stop_all_loop e send (k # ks) n w =
     (if active (slot_at k w) then stop_all_loop e send ks (Suc n) (deactivate_slot e k send w)
      else stop_all_loop e send ks n w)"

definition wiggle_stop_all :: "env \<Rightarrow> bool \<Rightarrow> world \<Rightarrow> world" where
  "wiggle_stop_all e send_exit_value w =
     (case stop_all_loop e send_exit_value [0..<APP_MAX_WIGGLES] 0 w of (stopped, w1) \<Rightarrow>
        if stopped > 0
        then ws_bridge_broadcast_text e
               (trunc_buf 96 (''Stopped '' @ show_u stopped @ '' active wiggle(s)'')) False w1
        else w1)"

definition process_slot :: "env \<Rightarrow> u64 \<Rightarrow> nat \<Rightarrow> world \<Rightarrow> world" where
  "process_slot e now k w =
     (let s = slot_at k w in
      if \<not> active s then w
      else if total_duration_ms s > 0 \<and> stop_time_ms s > 0 \<and> now \<ge> stop_time_ms s
        then deactivate_slot e k True w
      else if now < next_toggle_ms s then w
      else
        let next_value = (if current_value s = start_value s then end_value s else start_value s);
            w1 = send_value e k next_value w
        in set_slot k ((slot_at k w1)\<lparr>next_toggle_ms := now + ucast (period_ms s)\<rparr>) w1)"

fun process_loop :: "env \<Rightarrow> u64 \<Rightarrow> nat list \<Rightarrow> world \<Rightarrow> world" where
  "process_loop e now [] w = w"
| "process_loop e now (k # ks) w = process_loop e now ks (process_slot e now k w)"

definition wiggle_process :: "env \<Rightarrow> world \<Rightarrow> world" where
  "wiggle_process e w =
     (if state (app w) \<noteq> APP_STATE_PRECHILLING then w
      else case monotonic_ms e w of (now, w1) \<Rightarrow> process_loop e now [0..<APP_MAX_WIGGLES] w1)"


section \<open>Effect on the table\<close>

lemma set_slot_simps [simp]:
  "app (set_slot k s w) = (app w)\<lparr>wiggles := (wiggles (app w))[k := s]\<rparr>"
  "logger (set_slot k s w) = logger w" "worker (set_slot k s w) = worker w"
  "rxq (set_slot k s w) = rxq w" "trace (set_slot k s w) = trace w" "dir (set_slot k s w) = dir w"
  by (simp_all add: set_slot_def)

lemma app_send_value [simp]:
  "app (send_value e k v w) = (app w)\<lparr>wiggles := (wiggles (app w))[k := (slot_at k w)\<lparr>current_value := v\<rparr>]\<rparr>"
  by (simp add: send_value_def Let_def case_prod_beta)

lemma send_value_frame [simp]:
  "worker (send_value e k v w) = worker w" "rxq (send_value e k v w) = rxq w"
  "sys_log (trace (send_value e k v w)) = sys_log (trace w)"
  "ws_tx (trace (send_value e k v w)) = ws_tx (trace w)"
  by (simp_all add: send_value_def Let_def case_prod_beta)

lemma send_value_tx [tx_simps]:
  "can_tx (trace (send_value e k v w)) = can_tx (trace w) @
     (if can_fd (app w) < 0 \<or> slot_id (slot_at k w) > 0x7FF then []
      else [command_frame (slot_id (slot_at k w)) v 0])"
  by (simp add: send_value_def Let_def case_prod_beta tx_simps)

lemma app_deactivate [simp]:
  "app (deactivate_slot e k b w) =
     (app w)\<lparr>wiggles := (if active (slot_at k w) then (wiggles (app w))[k := zero_wiggle] else wiggles (app w))\<rparr>"
  by (simp add: deactivate_slot_def)

lemma deactivate_frame [simp]:
  "worker (deactivate_slot e k b w) = worker w" "rxq (deactivate_slot e k b w) = rxq w"
  "sys_log (trace (deactivate_slot e k b w)) = sys_log (trace w)"
  "ws_tx (trace (deactivate_slot e k b w)) = ws_tx (trace w)"
  by (simp_all add: deactivate_slot_def)

lemma deactivate_tx [tx_simps]:
  "can_tx (trace (deactivate_slot e k b w)) = can_tx (trace w) @
     (if active (slot_at k w) \<and> b \<and> \<not> can_fd (app w) < 0 \<and> \<not> slot_id (slot_at k w) > 0x7FF
      then [command_frame (slot_id (slot_at k w)) (exit_value (slot_at k w)) 0] else [])"
  by (auto simp: deactivate_slot_def tx_simps)

text \<open>The pure effect of one tick on one slot, and the frames it produces.\<close>

definition slot_expired :: "u64 \<Rightarrow> wiggle_command \<Rightarrow> bool" where
  "slot_expired now s \<longleftrightarrow> total_duration_ms s > 0 \<and> stop_time_ms s > 0 \<and> now \<ge> stop_time_ms s"

definition toggled :: "wiggle_command \<Rightarrow> u16" where
  "toggled s = (if current_value s = start_value s then end_value s else start_value s)"

definition slot_step :: "u64 \<Rightarrow> wiggle_command \<Rightarrow> wiggle_command" where
  "slot_step now s =
     (if \<not> active s then s
      else if slot_expired now s then zero_wiggle
      else if now < next_toggle_ms s then s
      else s\<lparr>current_value := toggled s, next_toggle_ms := now + ucast (period_ms s)\<rparr>)"

definition slot_out :: "u64 \<Rightarrow> wiggle_command \<Rightarrow> can_frame list" where
  "slot_out now s =
     (if \<not> active s then []
      else if slot_expired now s then [command_frame (slot_id s) (exit_value s) 0]
      else if now < next_toggle_ms s then []
      else [command_frame (slot_id s) (toggled s) 0])"

lemma app_process_slot:
  assumes "k < length (wiggles (app w))"
  shows "app (process_slot e now k w) =
    (app w)\<lparr>wiggles := (wiggles (app w))[k := slot_step now (slot_at k w)]\<rparr>"
  using assms
  by (simp add: process_slot_def slot_step_def Let_def slot_at_def slot_expired_def toggled_def)

lemma process_slot_frame [simp]:
  "worker (process_slot e now k w) = worker w" "rxq (process_slot e now k w) = rxq w"
  "sys_log (trace (process_slot e now k w)) = sys_log (trace w)"
  "ws_tx (trace (process_slot e now k w)) = ws_tx (trace w)"
  by (simp_all add: process_slot_def Let_def)

lemma process_slot_tx:
  assumes "0 \<le> can_fd (app w)" and "active (slot_at k w) \<Longrightarrow> slot_id (slot_at k w) \<le> 0x7FF"
  shows "can_tx (trace (process_slot e now k w)) = can_tx (trace w) @ slot_out now (slot_at k w)"
  using assms
  by (auto simp: process_slot_def slot_out_def Let_def tx_simps slot_expired_def toggled_def)

text \<open>A loop that treats each slot by itself maps its effect over the table.\<close>

lemma update_upt_map:
  assumes "k \<le> length xs"
  shows "fold (\<lambda>j ys. ys[j := f (ys ! j)]) [k..<length xs] xs = take k xs @ map f (drop k xs)"
  using assms
proof (induction "length xs - k" arbitrary: k xs)
  case 0
  then show ?case by simp
next
  case (Suc n)
  then have k: "k < length xs" by simp
  let ?ys = "xs[k := f (xs ! k)]"
  have "fold (\<lambda>j ys. ys[j := f (ys ! j)]) [k..<length xs] xs
      = fold (\<lambda>j ys. ys[j := f (ys ! j)]) [Suc k..<length ?ys] ?ys"
    using k by (simp add: upt_conv_Cons)
  also have "\<dots> = take (Suc k) ?ys @ map f (drop (Suc k) ?ys)"
    using Suc.hyps(1)[of ?ys "Suc k"] Suc.hyps(2) k by simp
  also have "\<dots> = take k xs @ map f (drop k xs)"
    using k by (simp add: take_Suc_conv_app_nth Cons_nth_drop_Suc [symmetric] drop_update_cancel)
  finally show ?case .
qed

lemma app_process_loop:
  assumes "\<forall>k \<in> set ks. k < length (wiggles (app w))"
  shows "app (process_loop e now ks w) =
    (app w)\<lparr>wiggles := fold (\<lambda>k s. s[k := slot_step now (s ! k)]) ks (wiggles (app w))\<rparr>"
  using assms
  by (induction ks arbitrary: w) (auto simp: app_process_slot slot_at_def)

lemma process_loop_frame [simp]:
  "worker (process_loop e now ks w) = worker w" "rxq (process_loop e now ks w) = rxq w"
  "sys_log (trace (process_loop e now ks w)) = sys_log (trace w)"
  "ws_tx (trace (process_loop e now ks w)) = ws_tx (trace w)"
  by (induction ks arbitrary: w) simp_all

definition slot_addressable :: "wiggle_command \<Rightarrow> bool" where
  "slot_addressable s \<longleftrightarrow> (active s \<longrightarrow> slot_id s \<le> 0x7FF)"

lemma process_loop_tx:
  assumes "0 \<le> can_fd (app w)" and "\<forall>k \<in> set ks. k < length (wiggles (app w)) \<and> slot_addressable (slot_at k w)"
    and "distinct ks"
  shows "can_tx (trace (process_loop e now ks w)) =
    can_tx (trace w) @ concat (map (\<lambda>k. slot_out now (slot_at k w)) ks)"
  using assms
proof (induction ks arbitrary: w)
  case Nil
  then show ?case by simp
next
  case (Cons k ks)
  let ?w = "process_slot e now k w"
  have a: "app ?w = (app w)\<lparr>wiggles := (wiggles (app w))[k := slot_step now (slot_at k w)]\<rparr>"
    using Cons.prems by (simp add: app_process_slot)
  have other: "slot_at j ?w = slot_at j w" if "j \<in> set ks" for j
  proof -
    have "k \<noteq> j" using that Cons.prems(3) by auto
    then show ?thesis by (simp add: slot_at_def a)
  qed
  have "can_tx (trace (process_loop e now ks ?w))
      = can_tx (trace ?w) @ concat (map (\<lambda>j. slot_out now (slot_at j ?w)) ks)"
    using Cons.prems other by (intro Cons.IH) (auto simp: a)
  also have "map (\<lambda>j. slot_out now (slot_at j ?w)) ks = map (\<lambda>j. slot_out now (slot_at j w)) ks"
    using other by simp
  also have "can_tx (trace ?w) = can_tx (trace w) @ slot_out now (slot_at k w)"
    using Cons.prems by (intro process_slot_tx) (auto simp: slot_addressable_def)
  finally show ?case by simp
qed


text \<open>Stopping everything.\<close>

definition slot_stopped :: "wiggle_command \<Rightarrow> wiggle_command" where
  "slot_stopped s = (if active s then zero_wiggle else s)"

definition exit_frame :: "wiggle_command \<Rightarrow> can_frame" where
  "exit_frame s = command_frame (slot_id s) (exit_value s) 0"

lemma app_deactivate_stopped:
  assumes "k < length (wiggles (app w))"
  shows "app (deactivate_slot e k b w) = (app w)\<lparr>wiggles := (wiggles (app w))[k := slot_stopped (slot_at k w)]\<rparr>"
  using assms by (simp add: slot_stopped_def slot_at_def)

lemma stop_all_loop_app:
  assumes "\<forall>k \<in> set ks. k < length (wiggles (app w))"
  shows "app (snd (stop_all_loop e send ks n w)) =
    (app w)\<lparr>wiggles := fold (\<lambda>k s. s[k := slot_stopped (s ! k)]) ks (wiggles (app w))\<rparr>"
  using assms
proof (induction ks arbitrary: w n)
  case Nil
  then show ?case by simp
next
  case (Cons k ks)
  then show ?case
    by (cases "active (slot_at k w)")
      (simp_all add: app_deactivate_stopped slot_at_def slot_stopped_def)
qed

lemma stop_all_loop_frame [simp]:
  "worker (snd (stop_all_loop e send ks n w)) = worker w" "rxq (snd (stop_all_loop e send ks n w)) = rxq w"
  "sys_log (trace (snd (stop_all_loop e send ks n w))) = sys_log (trace w)"
  "ws_tx (trace (snd (stop_all_loop e send ks n w))) = ws_tx (trace w)"
  by (induction ks arbitrary: n w) simp_all

lemma deactivate_other:
  assumes "distinct (k # ks)" and "j \<in> set ks"
  shows "slot_at j (deactivate_slot e k b w) = slot_at j w"
  using assms by (cases "k = j") (auto simp: slot_at_def)

lemma stop_all_loop_tx:
  assumes "0 \<le> can_fd (app w)" and "distinct ks"
    and "\<forall>k \<in> set ks. k < length (wiggles (app w)) \<and> slot_addressable (slot_at k w)"
  shows "can_tx (trace (snd (stop_all_loop e True ks n w))) =
      can_tx (trace w) @ map exit_frame (filter active (map (\<lambda>k. slot_at k w) ks))"
  using assms
proof (induction ks arbitrary: w n)
  case Nil
  then show ?case by simp
next
  case (Cons k ks)
  note other = deactivate_other[OF Cons.prems(2)]
  have "can_tx (trace (snd (stop_all_loop e True ks (Suc n) (deactivate_slot e k True w))))
    = can_tx (trace (deactivate_slot e k True w)) @ map exit_frame (filter active (map (\<lambda>k. slot_at k w) ks))"
    using Cons.IH[of "deactivate_slot e k True w" "Suc n"] Cons.prems
    by (simp add: other cong: map_cong)
  moreover have "can_tx (trace (snd (stop_all_loop e True ks n w)))
    = can_tx (trace w) @ map exit_frame (filter active (map (\<lambda>k. slot_at k w) ks))"
    using Cons.IH[of w n] Cons.prems by simp
  ultimately show ?case
    using Cons.prems by (cases "active (slot_at k w)") (auto simp: tx_simps slot_addressable_def exit_frame_def)
qed

lemma stop_all_loop_number:
  assumes "distinct ks" and "\<forall>k \<in> set ks. k < length (wiggles (app w))"
  shows "fst (stop_all_loop e b ks n w) = n + length (filter active (map (\<lambda>k. slot_at k w) ks))"
  using assms
proof (induction ks arbitrary: w n)
  case Nil
  then show ?case by simp
next
  case (Cons k ks)
  note other = deactivate_other[OF Cons.prems(1)]
  have "fst (stop_all_loop e b ks (Suc n) (deactivate_slot e k b w))
    = Suc n + length (filter active (map (\<lambda>k. slot_at k w) ks))"
    using Cons.IH[of "deactivate_slot e k b w" "Suc n"] Cons.prems
    by (simp add: other cong: map_cong)
  with Cons show ?case by simp
qed


section \<open>Whole-table specifications\<close>

lemma slots_upt [simp]:
  "length (wiggles (app w)) = n \<Longrightarrow> map (\<lambda>k. slot_at k w) [0..<n] = wiggles (app w)"
  using map_nth[of "wiggles (app w)"] by (simp add: slot_at_def)

lemma wiggle_process_app:
  assumes "length (wiggles (app w)) = APP_MAX_WIGGLES" and "state (app w) = APP_STATE_PRECHILLING"
  shows "app (wiggle_process e w) =
    (app w)\<lparr>wiggles := map (slot_step (fst (monotonic_ms e w))) (wiggles (app w))\<rparr>"
  using assms update_upt_map[of 0 "wiggles (app w)"]
  by (simp add: wiggle_process_def case_prod_beta app_process_loop)

lemma wiggle_process_frame [simp]:
  "worker (wiggle_process e w) = worker w" "rxq (wiggle_process e w) = rxq w"
  "sys_log (trace (wiggle_process e w)) = sys_log (trace w)"
  "ws_tx (trace (wiggle_process e w)) = ws_tx (trace w)"
  by (simp_all add: wiggle_process_def case_prod_beta)

lemma wiggle_process_hotfire: "state (app w) = APP_STATE_HOTFIRE \<Longrightarrow> wiggle_process e w = w"
  by (simp add: wiggle_process_def)

lemma wiggle_process_tx:
  assumes "length (wiggles (app w)) = APP_MAX_WIGGLES" and "state (app w) = APP_STATE_PRECHILLING"
    and "0 \<le> can_fd (app w)" and "list_all slot_addressable (wiggles (app w))"
  shows "can_tx (trace (wiggle_process e w)) =
    can_tx (trace w) @ concat (map (slot_out (fst (monotonic_ms e w))) (wiggles (app w)))"
proof -
  let ?now = "fst (monotonic_ms e w)" and ?w = "snd (monotonic_ms e w)"
  have same: "slot_at k ?w = slot_at k w" for k by (simp add: slot_at_def)
  have "can_tx (trace (process_loop e ?now [0..<APP_MAX_WIGGLES] ?w))
      = can_tx (trace ?w) @ concat (map (\<lambda>k. slot_out ?now (slot_at k ?w)) [0..<APP_MAX_WIGGLES])"
    using assms by (intro process_loop_tx) (auto simp: slot_at_def list_all_length)
  also have "map (\<lambda>k. slot_out ?now (slot_at k ?w)) [0..<APP_MAX_WIGGLES]
      = map (slot_out ?now) (map (\<lambda>k. slot_at k w) [0..<APP_MAX_WIGGLES])"
    by (simp add: same)
  finally show ?thesis using assms by (simp add: wiggle_process_def case_prod_beta)
qed

lemma wiggle_stop_all_app:
  assumes "length (wiggles (app w)) = APP_MAX_WIGGLES"
  shows "app (wiggle_stop_all e b w) = (app w)\<lparr>wiggles := map slot_stopped (wiggles (app w))\<rparr>"
  using assms update_upt_map[of 0 "wiggles (app w)"]
  by (simp add: wiggle_stop_all_def case_prod_beta stop_all_loop_app)

lemma wiggle_stop_all_frame [simp]:
  "worker (wiggle_stop_all e b w) = worker w" "rxq (wiggle_stop_all e b w) = rxq w"
  "sys_log (trace (wiggle_stop_all e b w)) = sys_log (trace w)"
  by (simp_all add: wiggle_stop_all_def case_prod_beta)

lemma wiggle_stop_all_tx:
  assumes "length (wiggles (app w)) = APP_MAX_WIGGLES" and "0 \<le> can_fd (app w)"
    and "list_all slot_addressable (wiggles (app w))"
  shows "can_tx (trace (wiggle_stop_all e True w)) =
    can_tx (trace w) @ map exit_frame (filter active (wiggles (app w)))"
proof -
  have "can_tx (trace (snd (stop_all_loop e True [0..<APP_MAX_WIGGLES] 0 w)))
      = can_tx (trace w) @ map exit_frame (filter active (map (\<lambda>k. slot_at k w) [0..<APP_MAX_WIGGLES]))"
    using assms by (intro stop_all_loop_tx) (auto simp: slot_at_def list_all_length)
  then show ?thesis
    using assms by (simp add: wiggle_stop_all_def case_prod_beta del: map_map)
qed

section \<open>The table as a finite map\<close>

text \<open>
  What the clients of the table rely on: a bounded map from identifiers to entries.  \<open>put\<close> fails
  exactly when the identifier is new and the table is full, and \<open>del\<close> always succeeds.
\<close>

locale bounded_table =
  fixes lookup :: "'t \<Rightarrow> 'k \<Rightarrow> 'v option" and put :: "'k \<Rightarrow> 'v \<Rightarrow> 't \<Rightarrow> 't option"
    and del :: "'k \<Rightarrow> 't \<Rightarrow> 't" and invar :: "'t \<Rightarrow> bool" and valid :: "'k \<Rightarrow> 'v \<Rightarrow> bool"
    and capacity :: nat
  assumes lookup_put: "invar t \<Longrightarrow> valid k v \<Longrightarrow> put k v t = Some t' \<Longrightarrow> lookup t' = (lookup t)(k \<mapsto> v)"
    and put_full: "invar t \<Longrightarrow> put k v t = None \<longleftrightarrow> lookup t k = None \<and> card (dom (lookup t)) = capacity"
    and lookup_del: "invar t \<Longrightarrow> lookup (del k t) = (lookup t)(k := None)"
    and invar_put: "invar t \<Longrightarrow> valid k v \<Longrightarrow> put k v t = Some t' \<Longrightarrow> invar t'"
    and invar_del: "invar t \<Longrightarrow> invar (del k t)"
    and finite_dom: "invar t \<Longrightarrow> finite (dom (lookup t))"
    and card_dom: "invar t \<Longrightarrow> card (dom (lookup t)) \<le> capacity"
begin

text \<open>Restarting an entry that is present always succeeds, full or not.\<close>

lemma put_again:
  assumes "invar t" and "valid k v" and "put k v t = Some t'"
  shows "\<exists>t''. put k v' t' = Some t''"
  using assms put_full[OF invar_put[OF assms], of k v'] lookup_put[OF assms]
  by (cases "put k v' t'") auto

text \<open>Deleting an entry makes room for any other.\<close>

lemma put_after_del:
  assumes "invar t" and "lookup t k = Some v"
  shows "\<exists>t'. put k' v' (del k t) = Some t'"
proof -
  have "dom (lookup (del k t)) = dom (lookup t) - {k}"
    using lookup_del[OF assms(1)] by simp
  moreover have "k \<in> dom (lookup t)" using assms(2) by auto
  ultimately have "card (dom (lookup (del k t))) < capacity"
    using finite_dom[OF assms(1)] card_dom[OF assms(1)]
    by (metis card_Diff1_less order_less_le_trans)
  then show ?thesis
    using put_full[OF invar_del[OF assms(1)], of k' v'] by (cases "put k' v' (del k t)") auto
qed

lemma del_absent: "invar t \<Longrightarrow> lookup t k = None \<Longrightarrow> lookup (del k t) = lookup t"
  by (simp add: lookup_del fun_upd_idem)

lemma put_other: "invar t \<Longrightarrow> valid k v \<Longrightarrow> put k v t = Some t' \<Longrightarrow> k' \<noteq> k \<Longrightarrow> lookup t' k' = lookup t k'"
  by (simp add: lookup_put)

end

definition slot_match :: "u32 \<Rightarrow> wiggle_command \<Rightarrow> bool" where
  "slot_match i s \<longleftrightarrow> active s \<and> slot_id s = i"

definition table_lookup :: "wiggle_command list \<Rightarrow> u32 \<Rightarrow> wiggle_command option" where
  "table_lookup tbl i = map_option ((!) tbl) (find_index (slot_match i) tbl)"

definition table_put :: "u32 \<Rightarrow> wiggle_command \<Rightarrow> wiggle_command list \<Rightarrow> wiggle_command list option" where
  "table_put i s tbl =
     (case (case find_index (slot_match i) tbl of
              None \<Rightarrow> find_index (\<lambda>s. \<not> active s) tbl | Some k \<Rightarrow> Some k) of
        None \<Rightarrow> None | Some k \<Rightarrow> Some (tbl[k := s]))"

definition table_del :: "u32 \<Rightarrow> wiggle_command list \<Rightarrow> wiggle_command list" where
  "table_del i tbl = (case find_index (slot_match i) tbl of None \<Rightarrow> tbl | Some k \<Rightarrow> tbl[k := zero_wiggle])"

text \<open>The invariant: sixteen slots, unused ones all zero, used ones with a standard identifier, a
  positive period and one of their two values as the current one, and no identifier used twice.\<close>

definition slot_ok :: "wiggle_command \<Rightarrow> bool" where
  "slot_ok s \<longleftrightarrow>
     (if active s then slot_id s \<le> 0x7FF \<and> period_ms s \<noteq> 0 \<and>
        (current_value s = start_value s \<or> current_value s = end_value s)
      else s = zero_wiggle)"

definition slots_distinct :: "wiggle_command list \<Rightarrow> bool" where
  "slots_distinct tbl \<longleftrightarrow>
     (\<forall>i < length tbl. \<forall>j < length tbl. active (tbl ! i) \<longrightarrow> active (tbl ! j) \<longrightarrow>
        slot_id (tbl ! i) = slot_id (tbl ! j) \<longrightarrow> i = j)"

definition wiggles_ok :: "wiggle_command list \<Rightarrow> bool" where
  "wiggles_ok tbl \<longleftrightarrow> length tbl = APP_MAX_WIGGLES \<and> list_all slot_ok tbl \<and> slots_distinct tbl"

lemma zero_wiggle_simps [simp]: "active zero_wiggle = False" "slot_ok zero_wiggle"
  by (simp_all add: zero_wiggle_def slot_ok_def)

lemma slot_ok_addressable: "list_all slot_ok tbl \<Longrightarrow> list_all slot_addressable tbl"
  by (auto simp: list_all_iff slot_ok_def slot_addressable_def split: if_splits)

lemma wiggles_ok_init: "wiggles_ok (replicate APP_MAX_WIGGLES zero_wiggle)"
  by (simp add: wiggles_ok_def slots_distinct_def list_all_iff)

lemma wiggles_ok_map:
  assumes "wiggles_ok tbl" and "\<And>s. slot_ok s \<Longrightarrow> slot_ok (f s)"
    and "\<And>s. active (f s) \<Longrightarrow> active s \<and> slot_id (f s) = slot_id s"
  shows "wiggles_ok (map f tbl)"
  using assms by (auto simp: wiggles_ok_def list_all_iff slots_distinct_def)

lemma slot_step_ok:
  "slot_ok s \<Longrightarrow> slot_ok (slot_step now s)"
  "active (slot_step now s) \<Longrightarrow> active s \<and> slot_id (slot_step now s) = slot_id s"
  by (auto simp: slot_ok_def slot_step_def toggled_def zero_wiggle_def split: if_splits)

lemma slot_stopped_ok:
  "slot_ok s \<Longrightarrow> slot_ok (slot_stopped s)" "\<not> active (slot_stopped s)"
  by (auto simp: slot_ok_def slot_stopped_def zero_wiggle_def)


definition active_slots :: "wiggle_command list \<Rightarrow> nat set" where
  "active_slots t = {k. k < length t \<and> active (t ! k)}"

lemma slot_match_unique:
  assumes "slots_distinct t" and "k < length t" "slot_match i (t ! k)" "j < length t" "slot_match i (t ! j)"
  shows "j = k"
  using assms unfolding slots_distinct_def slot_match_def by metis

lemma table_lookup_None: "table_lookup t i = None \<longleftrightarrow> (\<forall>s \<in> set t. \<not> slot_match i s)"
  by (simp add: table_lookup_def find_index_None_iff)

lemma table_lookup_Some_iff:
  assumes "slots_distinct t"
  shows "table_lookup t i = Some s \<longleftrightarrow> (\<exists>k < length t. t ! k = s \<and> slot_match i s)"
proof
  assume "table_lookup t i = Some s"
  then obtain k where "find_index (slot_match i) t = Some k" "s = t ! k"
    by (auto simp: table_lookup_def)
  with find_index_SomeD[OF this(1)] show "\<exists>k < length t. t ! k = s \<and> slot_match i s" by blast
next
  assume "\<exists>k < length t. t ! k = s \<and> slot_match i s"
  then obtain k where k: "k < length t" "t ! k = s" "slot_match i (t ! k)" by blast
  then obtain j where j: "find_index (slot_match i) t = Some j"
    using find_index_Some_ex[of t "slot_match i"] nth_mem by blast
  have "j = k" using slot_match_unique[OF assms k(1,3)] find_index_SomeD[OF j] by blast
  with j k show "table_lookup t i = Some s" by (simp add: table_lookup_def)
qed

lemma dom_table_lookup:
  assumes "slots_distinct t"
  shows "dom (table_lookup t) = (\<lambda>k. slot_id (t ! k)) ` active_slots t"
proof (intro set_eqI iffI)
  fix i
  assume "i \<in> dom (table_lookup t)"
  then obtain k where "k < length t" "slot_match i (t ! k)"
    by (auto simp: dom_def table_lookup_Some_iff [OF assms])
  then show "i \<in> (\<lambda>k. slot_id (t ! k)) ` active_slots t"
    by (auto simp: slot_match_def active_slots_def)
next
  fix i
  assume "i \<in> (\<lambda>k. slot_id (t ! k)) ` active_slots t"
  then obtain k where "k < length t" "slot_match i (t ! k)"
    by (auto simp: slot_match_def active_slots_def)
  then show "i \<in> dom (table_lookup t)"
    by (auto simp: dom_def table_lookup_Some_iff [OF assms])
qed

lemma card_dom_table:
  assumes "slots_distinct t"
  shows "card (dom (table_lookup t)) = card (active_slots t)"
  unfolding dom_table_lookup[OF assms]
  using assms by (intro card_image) (auto simp: inj_on_def slots_distinct_def active_slots_def)

lemma active_slots_full:
  assumes "length t = n"
  shows "card (active_slots t) \<le> n" and "card (active_slots t) = n \<longleftrightarrow> (\<forall>s \<in> set t. active s)"
proof -
  have sub: "active_slots t \<subseteq> {..<n}" using assms by (auto simp: active_slots_def)
  then show "card (active_slots t) \<le> n" using card_mono[OF finite_lessThan sub] by simp
  have "card (active_slots t) = n \<longleftrightarrow> active_slots t = {..<n}"
    using sub by (metis card_lessThan card_subset_eq finite_lessThan)
  also have "\<dots> \<longleftrightarrow> (\<forall>s \<in> set t. active s)"
    using assms by (auto simp: active_slots_def all_set_conv_all_nth)
  finally show "card (active_slots t) = n \<longleftrightarrow> (\<forall>s \<in> set t. active s)" .
qed

text \<open>An update at a position that holds the identifier already, or holds nothing while no other
  position holds the identifier, keeps the identifiers distinct.\<close>

lemma update_distinct:
  assumes "slots_distinct t" and "\<forall>j < length t. j \<noteq> k \<longrightarrow> \<not> slot_match (slot_id s) (t ! j)"
  shows "slots_distinct (t[k := s])"
  using assms unfolding slots_distinct_def slot_match_def
  by (auto simp: nth_update)

lemma table_put_position:
  assumes "slots_distinct t" and "table_put i s t = Some t'"
  obtains k where "k < length t" and "t' = t[k := s]" and "slot_match i (t ! k) \<or> \<not> active (t ! k)"
    and "\<forall>j < length t. j \<noteq> k \<longrightarrow> \<not> slot_match i (t ! j)"
proof (cases "find_index (slot_match i) t")
  case None
  then obtain k where k: "find_index (\<lambda>s. \<not> active s) t = Some k" "t' = t[k := s]"
    using assms(2) by (auto simp: table_put_def split: option.splits)
  from None have "\<forall>x \<in> set t. \<not> slot_match i x" by (simp add: find_index_None_iff)
  with k show ?thesis using find_index_SomeD[OF k(1)] by (intro that[of k]) auto
next
  case (Some k)
  from find_index_SomeD[OF this] have k: "k < length t" "slot_match i (t ! k)" by auto
  have "\<not> slot_match i (t ! j)" if "j < length t" "j \<noteq> k" for j
    using slot_match_unique[OF assms(1) k] that by blast
  with k Some assms(2) show ?thesis by (intro that[of k]) (auto simp: table_put_def)
qed

lemma ex_nth_update:
  assumes "k < length t"
  shows "(\<exists>m < length t. P (t[k := s] ! m)) \<longleftrightarrow> P s \<or> (\<exists>m < length t. m \<noteq> k \<and> P (t ! m))"
  using assms by (metis nth_update)

lemma table_lookup_update:
  assumes "slots_distinct t" and "k < length t"
    and "\<forall>j < length t. j \<noteq> k \<longrightarrow> \<not> slot_match i (t ! j)"
    and "slot_match i (t ! k) \<or> \<not> active (t ! k)" and "slots_distinct (t[k := s])"
    and "active s \<Longrightarrow> slot_id s = i"
  shows "table_lookup (t[k := s]) = (table_lookup t)(i := (if active s then Some s else None))"
proof (rule ext)
  fix j
  have "table_lookup (t[k := s]) j = Some x \<longleftrightarrow>
      ((table_lookup t)(i := (if active s then Some s else None))) j = Some x" for x
  proof -
    have "table_lookup (t[k := s]) j = Some x \<longleftrightarrow>
        (x = s \<and> slot_match j s) \<or> (\<exists>m < length t. m \<noteq> k \<and> t ! m = x \<and> slot_match j x)"
      using ex_nth_update[OF assms(2), of "\<lambda>y. y = x \<and> slot_match j x" s]
      by (auto simp: table_lookup_Some_iff [OF assms(5)])
    also have "\<dots> \<longleftrightarrow> ((table_lookup t)(i := (if active s then Some s else None))) j = Some x"
      using assms(3,4,6) by (cases "j = i")
        (auto simp: table_lookup_Some_iff [OF assms(1)] slot_match_def)
    finally show ?thesis .
  qed
  then show "table_lookup (t[k := s]) j = ((table_lookup t)(i := (if active s then Some s else None))) j"
    by (metis option.exhaust)
qed

lemma table_del_cases:
  assumes "slots_distinct t"
  obtains "table_del i t = t" and "table_lookup t i = None"
  | k where "k < length t" and "table_del i t = t[k := zero_wiggle]" and "slot_match i (t ! k)"
    and "\<forall>j < length t. j \<noteq> k \<longrightarrow> \<not> slot_match i (t ! j)"
proof (cases "find_index (slot_match i) t")
  case None
  then show ?thesis by (intro that(1)) (auto simp: table_del_def table_lookup_def)
next
  case (Some k)
  from find_index_SomeD[OF this] have k: "k < length t" "slot_match i (t ! k)" by auto
  have "\<not> slot_match i (t ! j)" if "j < length t" "j \<noteq> k" for j
    using slot_match_unique[OF assms k] that by blast
  with k Some show ?thesis by (intro that(2)[of k]) (auto simp: table_del_def)
qed

definition slot_valid :: "u32 \<Rightarrow> wiggle_command \<Rightarrow> bool" where
  "slot_valid i s \<longleftrightarrow> active s \<and> slot_id s = i \<and> slot_ok s"

lemma wiggles_ok_update:
  assumes "wiggles_ok t" and "slot_ok s" and "slots_distinct (t[k := s])"
  shows "wiggles_ok (t[k := s])"
  using assms by (auto simp: wiggles_ok_def list_all_iff dest: set_update_subset)

lemma table_put_correct:
  assumes "wiggles_ok t" and "slot_valid i s" and "table_put i s t = Some t'"
  shows "table_lookup t' = (table_lookup t)(i \<mapsto> s)" and "wiggles_ok t'"
proof -
  have d: "slots_distinct t" using assms(1) by (simp add: wiggles_ok_def)
  obtain k where k: "k < length t" "t' = t[k := s]" "slot_match i (t ! k) \<or> \<not> active (t ! k)"
    "\<forall>j < length t. j \<noteq> k \<longrightarrow> \<not> slot_match i (t ! j)"
    by (rule table_put_position[OF d assms(3)])
  have s: "active s" "slot_id s = i" "slot_ok s" using assms(2) by (simp_all add: slot_valid_def)
  have d': "slots_distinct (t[k := s])" using d k s by (intro update_distinct) auto
  show "table_lookup t' = (table_lookup t)(i \<mapsto> s)"
    using table_lookup_update[OF d k(1,4,3) d'] s k(2) by simp
  show "wiggles_ok t'" using wiggles_ok_update[OF assms(1) s(3) d'] k(2) by simp
qed

lemma table_del_correct:
  assumes "wiggles_ok t"
  shows "table_lookup (table_del i t) = (table_lookup t)(i := None)" and "wiggles_ok (table_del i t)"
proof -
  have d: "slots_distinct t" using assms by (simp add: wiggles_ok_def)
  have "table_lookup (table_del i t) = (table_lookup t)(i := None) \<and> wiggles_ok (table_del i t)"
  proof (rule table_del_cases[OF d, of i])
    assume "table_del i t = t" "table_lookup t i = None"
    then show ?thesis using assms by (simp add: fun_upd_idem)
  next
    fix k
    assume k: "k < length t" "table_del i t = t[k := zero_wiggle]" "slot_match i (t ! k)"
      "\<forall>j < length t. j \<noteq> k \<longrightarrow> \<not> slot_match i (t ! j)"
    have d': "slots_distinct (t[k := zero_wiggle])"
      using d by (auto simp: slots_distinct_def nth_update)
    show ?thesis
      using table_lookup_update[OF d k(1,4) _ d'] k(2,3) wiggles_ok_update[OF assms _ d'] by simp
  qed
  then show "table_lookup (table_del i t) = (table_lookup t)(i := None)" and "wiggles_ok (table_del i t)"
    by auto
qed

interpretation wt: bounded_table table_lookup table_put table_del wiggles_ok slot_valid APP_MAX_WIGGLES
proof (unfold_locales, goal_cases)
  case (1 t k v t')
  then show ?case by (rule table_put_correct)
next
  case (2 t k v)
  then have d: "slots_distinct t" and "length t = APP_MAX_WIGGLES" by (simp_all add: wiggles_ok_def)
  then show ?case
    using active_slots_full(2)[of t APP_MAX_WIGGLES] find_index_None_iff[of "slot_match k" t]
      find_index_None_iff[of "\<lambda>s. \<not> active s" t]
    by (simp add: table_put_def card_dom_table table_lookup_None split: option.splits) (metis not_None_eq)
next
  case (3 t k)
  then show ?case by (rule table_del_correct)
next
  case (4 t k v t')
  then show ?case by (rule table_put_correct)
next
  case (5 t k)
  then show ?case by (rule table_del_correct)
next
  case (6 t)
  then have "slots_distinct t" by (simp add: wiggles_ok_def)
  then show ?case by (simp add: dom_table_lookup active_slots_def)
next
  case (7 t)
  then show ?case
    using active_slots_full(1)[of t APP_MAX_WIGGLES] by (simp add: wiggles_ok_def card_dom_table)
qed


section \<open>Starting and stopping one wiggle\<close>

definition started_slot :: "u64 \<Rightarrow> u32 \<Rightarrow> u16 \<Rightarrow> u16 \<Rightarrow> u16 \<Rightarrow> u32 \<Rightarrow> u32 \<Rightarrow> wiggle_command" where
  "started_slot now i sv ev xv period dur =
     \<lparr>slot_id = i, start_value = sv, end_value = ev, current_value = sv, exit_value = xv,
      period_ms = period, total_duration_ms = dur, next_toggle_ms = now + ucast period,
      stop_time_ms = (if dur \<noteq> 0 then now + ucast dur else 0), active = True\<rparr>"

lemma started_slot_eq:
  "s\<lparr>slot_id := i, start_value := sv, end_value := ev, exit_value := xv, period_ms := period,
     total_duration_ms := dur, active := True, stop_time_ms := (if dur \<noteq> 0 then now + ucast dur else 0),
     current_value := sv, next_toggle_ms := now + ucast period\<rparr>
   = started_slot now i sv ev xv period dur"
  by (cases s) (simp add: started_slot_def)

lemma started_slot_valid: "i \<le> 0x7FF \<Longrightarrow> period \<noteq> 0 \<Longrightarrow> slot_valid i (started_slot now i sv ev xv period dur)"
  by (simp add: slot_valid_def started_slot_def slot_ok_def)

lemma slot_match_eta: "find_index (\<lambda>s. active s \<and> slot_id s = i) t = find_index (slot_match i) t"
proof -
  have "(\<lambda>s. active s \<and> slot_id s = i) = slot_match i" by (simp add: slot_match_def fun_eq_iff)
  then show ?thesis by simp
qed

text \<open>Every branch of \<^verbatim>\<open>wiggle_start\<close>: refused arguments and a full table change nothing; otherwise
  the entry is put into the table and its start value goes out.\<close>

lemma wiggle_start_spec:
  "wiggle_start e i sv ev xv period dur w =
    (let r = wiggle_start e i sv ev xv period dur w;
         s = started_slot (fst (monotonic_ms e w)) i sv ev xv period dur
     in if period = 0 \<or> i > 0x7FF then (-1, w)
        else case table_put i s (wiggles (app w)) of None \<Rightarrow> (-1, w) | Some t \<Rightarrow> (0, snd r))"
  by (auto simp: wiggle_start_def find_slot_def alloc_slot_def slot_match_eta table_put_def Let_def
      case_prod_beta split: option.splits)

lemma wiggle_start_app:
  assumes "period \<noteq> 0" and "i \<le> 0x7FF"
    and "table_put i (started_slot (fst (monotonic_ms e w)) i sv ev xv period dur) (wiggles (app w)) = Some t"
  shows "app (snd (wiggle_start e i sv ev xv period dur w)) = (app w)\<lparr>wiggles := t\<rparr>"
proof -
  obtain k where k: "(case find_slot (app w) i of None \<Rightarrow> alloc_slot (app w) | Some k \<Rightarrow> Some k) = Some k"
    "k < length (wiggles (app w))"
    "t = (wiggles (app w))[k := started_slot (fst (monotonic_ms e w)) i sv ev xv period dur]"
    using assms(3) find_index_SomeD(1)[of "slot_match i" "wiggles (app w)"]
      find_index_SomeD(1)[of "\<lambda>s. \<not> active s" "wiggles (app w)"]
    by (auto simp: table_put_def find_slot_def alloc_slot_def slot_match_eta split: option.splits)
  have "app (snd (wiggle_start e i sv ev xv period dur w))
      = (app w)\<lparr>wiggles := (wiggles (app w))[k := started_slot (fst (monotonic_ms e w)) i sv ev xv period dur]\<rparr>"
    using assms(1,2) k(2)
    by (simp add: wiggle_start_def k(1) case_prod_beta Let_def slot_at_def not_less started_slot_eq del: if_not_P)
  with k(3) show ?thesis by simp
qed

lemma wiggle_start_tx:
  "can_tx (trace (snd (wiggle_start e i sv ev xv period dur w))) = can_tx (trace w) @
     (if fst (wiggle_start e i sv ev xv period dur w) = 0 \<and> 0 \<le> can_fd (app w)
      then [command_frame i sv 0] else [])"
proof -
  have "k < length (wiggles (app w))"
    if "(case find_slot (app w) i of None \<Rightarrow> alloc_slot (app w) | Some k \<Rightarrow> Some k) = Some k" for k
    using that find_index_SomeD(1)[of "slot_match i" "wiggles (app w)"]
      find_index_SomeD(1)[of "\<lambda>s. \<not> active s" "wiggles (app w)"]
    by (auto simp: find_slot_def alloc_slot_def slot_match_eta split: option.splits)
  then show ?thesis
    by (auto simp: wiggle_start_def case_prod_beta Let_def tx_simps slot_at_def split: option.splits)
qed

lemma wiggle_start_frame [simp]:
  "worker (snd (wiggle_start e i sv ev xv period dur w)) = worker w"
  "rxq (snd (wiggle_start e i sv ev xv period dur w)) = rxq w"
  "sys_log (trace (snd (wiggle_start e i sv ev xv period dur w))) = sys_log (trace w)"
  "ws_tx (trace (snd (wiggle_start e i sv ev xv period dur w))) = ws_tx (trace w)"
  by (auto simp: wiggle_start_def case_prod_beta Let_def split: option.splits)

lemma wiggle_start_ok:
  assumes "wiggles_ok (wiggles (app w))"
  shows "wiggles_ok (wiggles (app (snd (wiggle_start e i sv ev xv period dur w))))"
    and "app (snd (wiggle_start e i sv ev xv period dur w))
      = (app w)\<lparr>wiggles := wiggles (app (snd (wiggle_start e i sv ev xv period dur w)))\<rparr>"
proof -
  let ?s = "started_slot (fst (monotonic_ms e w)) i sv ev xv period dur"
  let ?r = "snd (wiggle_start e i sv ev xv period dur w)"
  have "wiggles_ok (wiggles (app ?r)) \<and> app ?r = (app w)\<lparr>wiggles := wiggles (app ?r)\<rparr>"
  proof (cases "period = 0 \<or> i > 0x7FF \<or> table_put i ?s (wiggles (app w)) = None")
    case True
    then have "?r = w" by (subst wiggle_start_spec) (auto simp: Let_def)
    with assms show ?thesis by simp
  next
    case False
    then obtain t where t: "table_put i ?s (wiggles (app w)) = Some t" and i: "i \<le> 0x7FF" "period \<noteq> 0"
      by auto
    then have "app ?r = (app w)\<lparr>wiggles := t\<rparr>" by (intro wiggle_start_app) auto
    with wt.invar_put[OF assms started_slot_valid[OF i] t] show ?thesis by simp
  qed
  then show "wiggles_ok (wiggles (app ?r))" and "app ?r = (app w)\<lparr>wiggles := wiggles (app ?r)\<rparr>"
    by blast+
qed

lemma wiggle_stop_app:
  "app (snd (wiggle_stop e i w)) = (app w)\<lparr>wiggles := table_del i (wiggles (app w))\<rparr>"
  "fst (wiggle_stop e i w) \<longleftrightarrow> table_lookup (wiggles (app w)) i \<noteq> None"
proof -
  have "active (slot_at k w)" if "find_index (slot_match i) (wiggles (app w)) = Some k" for k
    using find_index_SomeD(2)[OF that] by (simp add: slot_at_def slot_match_def)
  then show "app (snd (wiggle_stop e i w)) = (app w)\<lparr>wiggles := table_del i (wiggles (app w))\<rparr>"
    "fst (wiggle_stop e i w) \<longleftrightarrow> table_lookup (wiggles (app w)) i \<noteq> None"
    by (auto simp: wiggle_stop_def find_slot_def slot_match_eta table_del_def table_lookup_def
        split: option.splits)
qed

lemma wiggle_stop_frame [simp]:
  "worker (snd (wiggle_stop e i w)) = worker w" "rxq (snd (wiggle_stop e i w)) = rxq w"
  "sys_log (trace (snd (wiggle_stop e i w))) = sys_log (trace w)"
  "ws_tx (trace (snd (wiggle_stop e i w))) = ws_tx (trace w)"
  by (auto simp: wiggle_stop_def split: option.splits)

lemma wiggle_stop_tx:
  "can_tx (trace (snd (wiggle_stop e i w))) = can_tx (trace w) @
     (case table_lookup (wiggles (app w)) i of
        None \<Rightarrow> [] | Some s \<Rightarrow> if can_fd (app w) < 0 \<or> i > 0x7FF then [] else [exit_frame s])"
proof -
  have "slot_match i (slot_at k w)" if "find_index (slot_match i) (wiggles (app w)) = Some k" for k
    using find_index_SomeD(2)[OF that] by (simp add: slot_at_def)
  then show ?thesis
    by (auto simp: wiggle_stop_def find_slot_def slot_match_eta table_lookup_def tx_simps
        exit_frame_def slot_match_def slot_at_def split: option.splits)
qed

lemma wiggle_process_ok:
  assumes "wiggles_ok (wiggles (app w))"
  shows "wiggles_ok (wiggles (app (wiggle_process e w)))"
    and "app (wiggle_process e w) = (app w)\<lparr>wiggles := wiggles (app (wiggle_process e w))\<rparr>"
proof -
  have len: "length (wiggles (app w)) = APP_MAX_WIGGLES" using assms by (simp add: wiggles_ok_def)
  have "wiggles_ok (map (slot_step n) (wiggles (app w)))" for n
    using assms by (rule wiggles_ok_map) (simp_all add: slot_step_ok)
  then have "\<exists>t. wiggles_ok t \<and> app (wiggle_process e w) = (app w)\<lparr>wiggles := t\<rparr>"
  proof (cases "state (app w)")
    case APP_STATE_PRECHILLING
    with \<open>\<And>n. wiggles_ok (map (slot_step n) (wiggles (app w)))\<close> wiggle_process_app[OF len, of e]
    show ?thesis by blast
  next
    case APP_STATE_HOTFIRE
    with assms show ?thesis by (intro exI [of _ "wiggles (app w)"]) (simp add: wiggle_process_hotfire)
  qed
  then show "wiggles_ok (wiggles (app (wiggle_process e w)))"
    and "app (wiggle_process e w) = (app w)\<lparr>wiggles := wiggles (app (wiggle_process e w))\<rparr>"
    by auto
qed

lemma wiggle_stop_all_ok:
  assumes "wiggles_ok (wiggles (app w))"
  shows "app (wiggle_stop_all e b w) = (app w)\<lparr>wiggles := replicate APP_MAX_WIGGLES zero_wiggle\<rparr>"
proof -
  have "length (wiggles (app w)) = APP_MAX_WIGGLES" "\<forall>s \<in> set (wiggles (app w)). slot_stopped s = zero_wiggle"
    using assms by (auto simp: wiggles_ok_def list_all_iff slot_stopped_def slot_ok_def)
  then show ?thesis
    by (simp add: wiggle_stop_all_app map_replicate_const cong: map_cong)
qed

section \<open>Properties\<close>

definition sample_slot :: "u32 \<Rightarrow> wiggle_command" where
  "sample_slot i = started_slot 7000 i 0x10 0x20 0x30 50 1000"

definition wiggling_world :: world where
  "wiggling_world = sample_world\<lparr>app := (app sample_world)
     \<lparr>wiggles := (replicate APP_MAX_WIGGLES zero_wiggle)[0 := sample_slot 0x101]\<rparr>\<rparr>"

lemma sample_slot_simps:
  "active (sample_slot i)" "slot_id (sample_slot i) = i" "exit_value (sample_slot i) = 0x30"
  "start_value (sample_slot i) = 0x10" "i \<le> 0x7FF \<Longrightarrow> slot_ok (sample_slot i)"
  by (simp_all add: sample_slot_def started_slot_def slot_ok_def)

lemma wiggling_world_simps:
  "wiggles (app wiggling_world) = sample_slot 0x101 # replicate 15 zero_wiggle"
  "can_fd (app wiggling_world) = 3" "state (app wiggling_world) = APP_STATE_PRECHILLING"
  "trace wiggling_world = []"
  by (simp_all add: wiggling_world_def sample_simps APP_MAX_WIGGLES_def numeral_eq_Suc)

lemma wiggling_world_ok: "wiggles_ok (wiggles (app wiggling_world))"
proof -
  have "active (wiggles (app wiggling_world) ! k) \<Longrightarrow> k < 16 \<Longrightarrow> k = 0" for k
    by (cases k) (simp_all add: wiggling_world_simps)
  then show ?thesis
    by (auto simp: wiggles_ok_def slots_distinct_def wiggling_world_simps sample_slot_simps APP_MAX_WIGGLES_def list_all_iff)
qed

lemma sample_world_ok: "wiggles_ok (wiggles (app sample_world))"
  using wiggles_ok_init by (simp add: sample_simps)

text \<open>C14.  Starting a wiggle is an update of a finite map from CAN identifiers to entries, bounded by
  sixteen: a zero period, an identifier above 0x7FF, or a new identifier in a full table is refused
  without any effect; otherwise the entry is the one described by the arguments, every other entry is
  kept, the table stays well formed, and the start value goes out.\<close>

theorem wiggle_start_refines:
  assumes "wiggles_ok (wiggles (app w))"
  shows "case wiggle_start e i sv ev xv period dur w of (rc, w') \<Rightarrow>
    let M = table_lookup (wiggles (app w)) in
    if period = 0 \<or> 0x7FF < i \<or> M i = None \<and> card (dom M) = 16 then rc = -1 \<and> w' = w
    else rc = 0 \<and> wiggles_ok (wiggles (app w')) \<and>
      table_lookup (wiggles (app w')) = M(i \<mapsto> started_slot (fst (monotonic_ms e w)) i sv ev xv period dur) \<and>
      can_tx (trace w') = can_tx (trace w) @ (if 0 \<le> can_fd (app w) then [command_frame i sv 0] else [])"
proof -
  let ?s = "started_slot (fst (monotonic_ms e w)) i sv ev xv period dur"
  let ?r = "wiggle_start e i sv ev xv period dur w" and ?t = "wiggles (app w)"
  note full = wt.put_full[OF assms, of i ?s, unfolded APP_MAX_WIGGLES_def]
  show ?thesis
  proof (cases "period = 0 \<or> 0x7FF < i \<or> table_put i ?s ?t = None")
    case True
    then have "?r = (-1, w)" by (subst wiggle_start_spec) (auto simp: Let_def)
    with True full show ?thesis by (auto simp: Let_def)
  next
    case False
    then obtain t where t: "table_put i ?s ?t = Some t" and p: "period \<noteq> 0" "i \<le> 0x7FF" by auto
    then have rc: "fst ?r = 0" by (subst wiggle_start_spec) (auto simp: Let_def)
    have app: "app (snd ?r) = (app w)\<lparr>wiggles := t\<rparr>" by (rule wiggle_start_app [OF p t])
    have "slot_valid i ?s" using p by (simp add: started_slot_valid)
    note put = table_put_correct[OF assms this t]
    show ?thesis
      using False full put rc app p wiggle_start_tx[of e i sv ev xv period dur w]
      by (auto simp: Let_def case_prod_beta)
  qed
qed

theorem wiggle_start_refines_witness:
  "table_lookup (wiggles (app (snd (wiggle_start sample_env 0x101 1 2 3 50 0 sample_world)))) 0x101 \<noteq> None"
proof -
  have "table_lookup (wiggles (app sample_world)) = Map.empty"
    by (rule ext) (simp add: sample_simps table_lookup_None slot_match_def)
  then show ?thesis
    using wiggle_start_refines[OF sample_world_ok, where e = sample_env and i = "0x101" and sv = 1 and ev = 2
        and xv = 3 and period = 50 and dur = 0]
    by (simp add: case_prod_beta Let_def)
qed

text \<open>C15.  Stopping a wiggle removes its identifier from the map and nothing else, reports whether
  there was one, and sends its exit value; on an absent identifier the table is unchanged.\<close>

theorem wiggle_stop_refines:
  assumes "wiggles_ok (wiggles (app w))" and "0 \<le> can_fd (app w)"
  shows "case wiggle_stop e i w of (found, w') \<Rightarrow>
    let M = table_lookup (wiggles (app w)) in
    wiggles_ok (wiggles (app w')) \<and> table_lookup (wiggles (app w')) = M(i := None) \<and>
    found = (M i \<noteq> None) \<and>
    can_tx (trace w') = can_tx (trace w) @
      (case M i of None \<Rightarrow> [] | Some s \<Rightarrow> [command_frame i (exit_value s) 0])"
proof -
  have d: "slots_distinct (wiggles (app w))" using assms(1) by (simp add: wiggles_ok_def)
  have "i \<le> 0x7FF \<and> slot_id s = i" if "table_lookup (wiggles (app w)) i = Some s" for s
    using that assms(1) by (auto simp: table_lookup_Some_iff [OF d] slot_match_def wiggles_ok_def list_all_length slot_ok_def)
  then show ?thesis
    using table_del_correct[OF assms(1), of i] wiggle_stop_app[of e i w] wiggle_stop_tx[of e i w] assms(2)
    by (auto simp: Let_def case_prod_beta exit_frame_def split: option.splits)
qed

theorem wiggle_stop_refines_witness:
  "can_tx (trace (snd (wiggle_stop sample_env 0x101 wiggling_world))) = [command_frame 0x101 0x30 0] \<and>
   table_lookup (wiggles (app (snd (wiggle_stop sample_env 0x101 wiggling_world)))) 0x101 = None"
proof -
  have l: "table_lookup (wiggles (app wiggling_world)) 0x101 = Some (sample_slot 0x101)"
    by (simp add: table_lookup_def wiggling_world_simps slot_match_def sample_slot_simps)
  show ?thesis
    using wiggle_stop_refines[OF wiggling_world_ok, where e = sample_env and i = "0x101"] l
    by (simp add: wiggling_world_simps case_prod_beta Let_def sample_slot_simps)
qed

lemma table_lookup_map:
  assumes "wiggles_ok t" and "wiggles_ok (map f t)" and "\<And>s. active (f s) \<Longrightarrow> active s \<and> slot_id (f s) = slot_id s"
  shows "table_lookup (map f t) i = (case table_lookup t i of None \<Rightarrow> None | Some s \<Rightarrow> if active (f s) then Some (f s) else None)"
proof -
  have d: "slots_distinct t" "slots_distinct (map f t)" using assms(1,2) by (simp_all add: wiggles_ok_def)
  show ?thesis
  proof (cases "table_lookup t i")
    case None
    then have "\<forall>s \<in> set (map f t). \<not> slot_match i s"
      using assms(3) by (auto simp: table_lookup_None slot_match_def)
    then show ?thesis using None by (simp add: table_lookup_None [symmetric] del: set_map)
  next
    case (Some s)
    then obtain k where k: "k < length t" "t ! k = s" "slot_match i s" by (auto simp: table_lookup_Some_iff [OF d(1)])
    show ?thesis
    proof (cases "active (f s)")
      case True
      then have "slot_match i (f s)" using assms(3)[OF True] k(3) by (simp add: slot_match_def)
      then have "table_lookup (map f t) i = Some (f s)"
        using k(1,2) by (subst table_lookup_Some_iff [OF d(2)]) (intro exI [of _ k], simp)
      then show ?thesis using Some True by simp
    next
      case False
      have "table_lookup (map f t) i = None"
      proof (rule ccontr)
        assume "table_lookup (map f t) i \<noteq> None"
        then obtain m where m: "m < length t" "slot_match i (f (t ! m))"
          by (auto simp: table_lookup_Some_iff [OF d(2)])
        then have "slot_match i (t ! m)" using assms(3)[of "t ! m"] by (simp add: slot_match_def)
        then have "m = k" using slot_match_unique[OF d(1) k(1) _ m(1)] k by simp
        with m False k show False by (simp add: slot_match_def)
      qed
      then show ?thesis using Some False by simp
    qed
  qed
qed

text \<open>C16.  A tick of the timer in PRECHILLING treats every wiggle by itself: one whose duration has
  run out is removed and sends its exit value, one that is due switches to its other value, sends it and
  is next due a period later, and any other is left alone; the frames go out in table order, and no
  wiggle appears or changes its identifier.\<close>

theorem wiggle_tick:
  assumes "wiggles_ok (wiggles (app w))" and "state (app w) = APP_STATE_PRECHILLING" and "0 \<le> can_fd (app w)"
    and "now = fst (monotonic_ms e w)"
  shows "table_lookup (wiggles (app (wiggle_process e w))) i =
      (case table_lookup (wiggles (app w)) i of
         None \<Rightarrow> None
       | Some s \<Rightarrow>
           if slot_expired now s then None
           else if now < next_toggle_ms s then Some s
           else Some (s\<lparr>current_value := toggled s, next_toggle_ms := now + ucast (period_ms s)\<rparr>)) \<and>
    can_tx (trace (wiggle_process e w)) = can_tx (trace w) @
      concat (map (\<lambda>s. if \<not> active s then []
                      else if slot_expired now s then [command_frame (slot_id s) (exit_value s) 0]
                      else if now < next_toggle_ms s then []
                      else [command_frame (slot_id s) (toggled s) 0]) (wiggles (app w)))"
proof -
  let ?t = "wiggles (app w)"
  have len: "length ?t = APP_MAX_WIGGLES" and adr: "list_all slot_addressable ?t"
    using assms(1) by (simp_all add: wiggles_ok_def slot_ok_addressable)
  have ok: "wiggles_ok (map (slot_step now) ?t)"
    using assms(1) by (rule wiggles_ok_map) (simp_all add: slot_step_ok)
  have act: "active s" if "table_lookup ?t i = Some s" for s
    using that assms(1) by (auto simp: table_lookup_Some_iff wiggles_ok_def slot_match_def)
  have "table_lookup (map (slot_step now) ?t) i =
      (case table_lookup ?t i of None \<Rightarrow> None | Some s \<Rightarrow> if active (slot_step now s) then Some (slot_step now s) else None)"
    by (rule table_lookup_map [OF assms(1) ok]) (rule slot_step_ok)
  also have "\<dots> = (case table_lookup ?t i of None \<Rightarrow> None | Some s \<Rightarrow> if slot_expired now s then None
      else if now < next_toggle_ms s then Some s
      else Some (s\<lparr>current_value := toggled s, next_toggle_ms := now + ucast (period_ms s)\<rparr>))"
    using act by (auto simp: slot_step_def split: option.splits)
  finally show ?thesis
    using wiggle_process_app[OF len assms(2), of e, folded assms(4)]
      wiggle_process_tx[OF len assms(2,3) adr, of e, folded assms(4)]
    by (simp add: slot_out_def [abs_def])
qed

theorem wiggle_tick_witness:
  "can_tx (trace (wiggle_process (sample_env\<lparr>clock_gettime := (\<lambda>_ _. (0, 7, 60000000))\<rparr>) wiggling_world))
    = [command_frame 0x101 0x20 0]"
proof -
  let ?e = "sample_env\<lparr>clock_gettime := (\<lambda>_ _. (0, 7, 60000000))\<rparr>"
  have now: "7060 = fst (monotonic_ms ?e wiggling_world)" by (simp add: monotonic_ms_def)
  have fd: "0 \<le> can_fd (app wiggling_world)" by (simp add: wiggling_world_simps)
  show ?thesis
    using wiggle_tick[OF wiggling_world_ok wiggling_world_simps(3) fd now, of 0]
    by (simp add: wiggling_world_simps sample_slot_def started_slot_def slot_expired_def toggled_def
        concat_replicate_trivial zero_wiggle_def)
qed

end
