(* ===== verification/AppState.thy ===== *)
theory AppState
  imports Wiggle
begin

text \<open>
  The operating state, \<^verbatim>\<open>src/control/state.c\<close>, and \<^verbatim>\<open>ws_bridge_send_current_state\<close> of
  \<^verbatim>\<open>src/ws/ws_bridge.c\<close>.  Entering HOTFIRE stops every wiggle with its exit value.
\<close>

fun app_state_label :: "app_state \<Rightarrow> string" where
  "app_state_label APP_STATE_PRECHILLING = ''PRECHILLING''"
| "app_state_label APP_STATE_HOTFIRE = ''HOTFIRE''"

definition app_state_get :: "world \<Rightarrow> app_state" where
  "app_state_get w = state (app w)"

definition state_message :: "world \<Rightarrow> string" where
  "state_message w = trunc_buf 64 (''State has been set to '' @ app_state_label (app_state_get w))"

definition app_state_broadcast :: "env \<Rightarrow> world \<Rightarrow> world" where
  "app_state_broadcast e w = ws_bridge_broadcast_text e (state_message w) False w"

definition app_state_set :: "env \<Rightarrow> app_state \<Rightarrow> world \<Rightarrow> bool \<times> world" where
  "app_state_set e s w =
     (let changed = (state (app w) \<noteq> s);
          w1 = w\<lparr>app := (app w)\<lparr>state := s\<rparr>\<rparr>;
          w2 = (if s = APP_STATE_HOTFIRE then wiggle_stop_all e True w1 else w1)
      in (changed, app_state_broadcast e w2))"

definition ws_bridge_send_current_state :: "env \<Rightarrow> client \<Rightarrow> world \<Rightarrow> world" where
  "ws_bridge_send_current_state e c w = ws_bridge_send_text e c (state_message w) w"

lemma silent_state_broadcast [simp, intro]: "silent_can w (app_state_broadcast e w)"
  by (simp add: app_state_broadcast_def)

lemma silent_send_current_state [simp, intro]: "silent_can w (ws_bridge_send_current_state e c w)"
  by (simp add: ws_bridge_send_current_state_def)

lemmas state_frame [simp] = silent_canD [OF silent_state_broadcast] silent_canD [OF silent_send_current_state]

lemma state_message_full: "state_message w = ''State has been set to '' @ app_state_label (app_state_get w)"
  by (cases "state (app w)") (simp_all add: state_message_def trunc_buf_def app_state_get_def)

lemma app_state_set_app:
  assumes "wiggles_ok (wiggles (app w))"
  shows "app (snd (app_state_set e s w)) =
    (app w)\<lparr>state := s, wiggles := (if s = APP_STATE_HOTFIRE then replicate APP_MAX_WIGGLES zero_wiggle
                                else wiggles (app w))\<rparr>"
  using assms by (simp add: app_state_set_def Let_def wiggle_stop_all_ok)

lemma app_state_set_frame [simp]:
  "worker (snd (app_state_set e s w)) = worker w" "rxq (snd (app_state_set e s w)) = rxq w"
  "sys_log (trace (snd (app_state_set e s w))) = sys_log (trace w)"
  by (simp_all add: app_state_set_def Let_def)

lemma app_state_set_tx:
  assumes "wiggles_ok (wiggles (app w))" and "0 \<le> can_fd (app w)"
  shows "can_tx (trace (snd (app_state_set e s w))) = can_tx (trace w) @
    (if s = APP_STATE_HOTFIRE then map exit_frame (filter active (wiggles (app w))) else [])"
proof -
  let ?w = "w\<lparr>app := (app w)\<lparr>state := s\<rparr>\<rparr>"
  have "can_tx (trace (wiggle_stop_all e True ?w))
      = can_tx (trace ?w) @ map exit_frame (filter active (wiggles (app ?w)))"
    using assms by (intro wiggle_stop_all_tx) (simp_all add: wiggles_ok_def slot_ok_addressable)
  then show ?thesis by (auto simp: app_state_set_def Let_def)
qed

section \<open>Properties\<close>

text \<open>C17.  Entering HOTFIRE from any state empties the wiggle table, after sending the exit value of
  every active wiggle in table order, and changes nothing else of the context; setting PRECHILLING only
  changes the state; either way the result says whether the state changed.\<close>

theorem enter_state:
  assumes "wiggles_ok (wiggles (app w))" and "0 \<le> can_fd (app w)"
  shows "case app_state_set e s w of (changed, w') \<Rightarrow>
    changed = (state (app w) \<noteq> s) \<and>
    (case s of
       APP_STATE_HOTFIRE \<Rightarrow>
         app w' = (app w)\<lparr>state := APP_STATE_HOTFIRE, wiggles := replicate APP_MAX_WIGGLES zero_wiggle\<rparr> \<and>
         can_tx (trace w') = can_tx (trace w) @
           map (\<lambda>x. command_frame (slot_id x) (exit_value x) 0) (filter active (wiggles (app w)))
     | APP_STATE_PRECHILLING \<Rightarrow>
         app w' = (app w)\<lparr>state := APP_STATE_PRECHILLING\<rparr> \<and> can_tx (trace w') = can_tx (trace w))"
proof -
  have "fst (app_state_set e s w) = (state (app w) \<noteq> s)" by (simp add: app_state_set_def Let_def)
  moreover have "(\<lambda>x. command_frame (slot_id x) (exit_value x) 0) = exit_frame" by (simp add: exit_frame_def fun_eq_iff)
  ultimately show ?thesis
    using app_state_set_app[OF assms(1), of e s] app_state_set_tx[OF assms, of e s]
    by (cases s) (simp_all add: case_prod_beta)
qed

theorem enter_state_witness:
  "can_tx (trace (snd (app_state_set sample_env APP_STATE_HOTFIRE wiggling_world))) = [command_frame 0x101 0x30 0]"
  using enter_state[OF wiggling_world_ok, where e = sample_env and s = APP_STATE_HOTFIRE]
  by (simp add: wiggling_world_simps case_prod_beta sample_slot_simps zero_wiggle_simps)

end
