(* ===== verification/Firing.thy ===== *)
theory Firing
  imports AppState
begin

text \<open>
  Firing sequences, \<^verbatim>\<open>src/control/firing_sequence.c\<close>: parsing a FIRE command into blocks, starting
  the detached worker thread, the worker itself, and aborting.  The worker is a machine whose steps
  are the stretches of \<^verbatim>\<open>sequence_worker\<close> and \<^verbatim>\<open>wait_with_abort\<close> between two points at which
  another thread can intervene; the shared flags are only touched under \<^verbatim>\<open>sequence_lock\<close>.  The up to three
  attempts at sending a block are one step.
\<close>

definition FIRING_SEQUENCE_TMINUS_MS :: u32 where "FIRING_SEQUENCE_TMINUS_MS = 10000"

definition CAN_SEND_ATTEMPTS :: nat where "CAN_SEND_ATTEMPTS = 3"

section \<open>Flags\<close>

definition abort_requested :: "world \<Rightarrow> bool" where
  "abort_requested w = sequence_abort (app w)"

definition finish_sequence :: "world \<Rightarrow> world" where
  "finish_sequence w = w\<lparr>app := (app w)\<lparr>sequence_active := False, sequence_abort := False\<rparr>\<rparr>"

definition firing_sequence_request_abort :: "world \<Rightarrow> world" where
  "firing_sequence_request_abort w = w\<lparr>app := (app w)\<lparr>sequence_abort := True\<rparr>\<rparr>"

section \<open>Parsing\<close>

definition zero_config :: firing_sequence_config where
  "zero_config = \<lparr>num_blocks = 0, ids = replicate APP_MAX_FIRING_BLOCKS 0,
     vals = replicate APP_MAX_FIRING_BLOCKS (0, 0), wait_times_ms = replicate APP_MAX_FIRING_BLOCKS 0,
     drown_injector = False\<rparr>"

type_synonym block = "u32 \<times> u16 \<times> u16 \<times> u16"
  \<comment> \<open>identifier, value, duration, wait before the next block\<close>

definition scan_block :: "string \<Rightarrow> block option" where
  "scan_block token =
     (case sscanf [Hex, Lit CHR ''#'', Hex, Lit CHR ''#'', Dec, Lit CHR ''#'', Dec, AnyChar] token of
        [Num i, Num v, Num d, Num wt] \<Rightarrow> Some (of_nat i, of_nat v, of_nat d, of_nat wt)
      | _ \<Rightarrow>
          (case sscanf [Hex, Lit CHR ''#'', Hex, Lit CHR ''#'', Dec, AnyChar] token of
             [Num i, Num v, Num d] \<Rightarrow> Some (of_nat i, of_nat v, of_nat d, 0)
           | _ \<Rightarrow> None))"

definition store_block :: "block \<Rightarrow> firing_sequence_config \<Rightarrow> firing_sequence_config" where
  "store_block b c = (case b of (i, v, d, wt) \<Rightarrow>
     c\<lparr>ids := (ids c)[num_blocks c := i], vals := (vals c)[num_blocks c := (v, d)],
       wait_times_ms := (wait_times_ms c)[num_blocks c := wt], num_blocks := num_blocks c + 1\<rparr>)"

fun parse_blocks :: "string list \<Rightarrow> firing_sequence_config \<Rightarrow> firing_sequence_config option" where
  "parse_blocks [] c = Some c"
| "parse_blocks (t # ts) c =
     (if num_blocks c < APP_MAX_FIRING_BLOCKS then
        (case scan_block t of
           None \<Rightarrow> None
         | Some (i, v, d, wt) \<Rightarrow>
             if i = 0 \<or> i > 0x7FF then None else parse_blocks ts (store_block (i, v, d, wt) c))
      else Some c)"

text \<open>\<open>None\<close> is the return value \<open>-1\<close>; the payload is copied with \<^verbatim>\<open>strdup\<close>.\<close>

definition firing_sequence_parse :: "env \<Rightarrow> string \<Rightarrow> world \<Rightarrow> firing_sequence_config option \<times> world" where
  "firing_sequence_parse e command w =
     (case strchr CHR ''|'' command of
        None \<Rightarrow> (None, w)
      | Some r \<Rightarrow>
          let ok = alloc_ok e (trace w); w1 = log_event (EvAlloc ok) w in
          if \<not> ok then (None, w1)
          else case parse_blocks (strtok_all CHR ''|'' (tl r)) zero_config of
              None \<Rightarrow> (None, w1)
            | Some c \<Rightarrow> (if num_blocks c > 0 then Some c else None, w1))"

section \<open>Starting\<close>

definition firing_sequence_start ::
  "env \<Rightarrow> client \<Rightarrow> firing_sequence_config \<Rightarrow> string \<Rightarrow> string \<Rightarrow> string \<Rightarrow> world \<Rightarrow> int \<times> world" where
  "firing_sequence_start e c cfg started completed failed w =
     (if num_blocks cfg = 0 then (-1, w)
      else if sequence_active (app w) then (-1, w)
      else
        let w1 = w\<lparr>app := (app w)\<lparr>sequence_active := True, sequence_abort := False\<rparr>\<rparr>;
            ok = alloc_ok e (trace w1);
            w2 = log_event (EvAlloc ok) w1
        in if \<not> ok then (-1, finish_sequence w2)
           else
             let args = \<lparr>arg_client = c, arg_config = cfg, started_message = trunc_buf 160 started,
                         completed_message = trunc_buf 128 completed, failed_message = trunc_buf 128 failed\<rparr>;
                 rc = thread_create e (trace w2);
                 w3 = log_event (EvThread rc) w2
             in if rc \<noteq> 0 then (-1, (finish_sequence w3)\<lparr>errno := rc\<rparr>)
                else (0, w3\<lparr>worker := Some \<lparr>wargs = args, wpc = WStart\<rparr>\<rparr>))"

definition show_04x0 :: "u16 \<Rightarrow> string" where "show_04x0 v = ''0x'' @ show_04x v"

definition show_03x0 :: "u32 \<Rightarrow> string" where "show_03x0 i = ''0x'' @ show_03x i"

definition drown_config :: "valve_profile \<Rightarrow> firing_sequence_config" where
  "drown_config v = zero_config\<lparr>drown_injector := True, num_blocks := 2,
     ids := (replicate APP_MAX_FIRING_BLOCKS 0)[0 := lox_main_valve_id v, 1 := lox_vent_valve_id v],
     vals := (replicate APP_MAX_FIRING_BLOCKS (0, 0))
               [0 := (lox_main_angle_open v, 0), 1 := (lox_vent_angle_close v, 1000)],
     wait_times_ms := (replicate APP_MAX_FIRING_BLOCKS 0)[0 := 100, 1 := 0]\<rparr>"

definition firing_sequence_start_drown :: "env \<Rightarrow> client \<Rightarrow> world \<Rightarrow> int \<times> world" where
  "firing_sequence_start_drown e c w =
     (let v = valve (app w) in
      if lox_main_valve_id v = 0 \<or> lox_vent_valve_id v = 0 then (-1, w)
      else
        let cfg = drown_config v;
            started = trunc_buf 160 (''Starting drowning sequence: open '' @ show_03x0 (ids cfg ! 0)
              @ '' to '' @ show_04x0 (fst (vals cfg ! 0)) @ '', then close '' @ show_03x0 (ids cfg ! 1)
              @ '' to '' @ show_04x0 (fst (vals cfg ! 1)))
        in firing_sequence_start e c cfg started ''Injector drowned successfully'' ''Error drowning injector'' w)"

section \<open>The worker\<close>

fun send_attempts :: "env \<Rightarrow> nat \<Rightarrow> u32 \<Rightarrow> u16 \<Rightarrow> u16 \<Rightarrow> world \<Rightarrow> int \<times> world" where
  "send_attempts e 0 i v d w = (-1, w)"
| "send_attempts e (Suc n) i v d w =
     (case can_bus_send_command e (can_fd (app w)) i v d w of (rc, w1) \<Rightarrow>
        if rc = 0
        then (0, logger_printf e ''CAN_TX'' (show_03x i @ ''#'' @ show_04x v @ ''#'' @ show_u (unat d)) w1)
        else send_attempts e n i v d w1)"

definition send_block :: "env \<Rightarrow> u32 \<Rightarrow> u16 \<Rightarrow> u16 \<Rightarrow> world \<Rightarrow> int \<times> world" where
  "send_block e = send_attempts e CAN_SEND_ATTEMPTS"

definition block_delay :: "firing_sequence_config \<Rightarrow> nat \<Rightarrow> u32" where
  "block_delay cfg i =
     (if i = 0 then (if drown_injector cfg then 0 else FIRING_SEQUENCE_TMINUS_MS)
      else ucast (wait_times_ms cfg ! (i - 1)))"

definition set_pc :: "worker_pc \<Rightarrow> world \<Rightarrow> world" where
  "set_pc pc w = w\<lparr>worker := map_option (\<lambda>k. k\<lparr>wpc := pc\<rparr>) (worker w)\<rparr>"

definition worker_step :: "env \<Rightarrow> world \<Rightarrow> world" where
  "worker_step e w =
     (case worker w of
        None \<Rightarrow> w
      | Some k \<Rightarrow>
          let args = wargs k; cfg = arg_config args; c = arg_client args in
          case wpc k of
            WStart \<Rightarrow> set_pc (WBlock 0) (ws_bridge_send_text e c (started_message args) w)
          | WBlock i \<Rightarrow>
              if i < num_blocks cfg then
                (case monotonic_ms e w of (now, w1) \<Rightarrow> set_pc (WPoll i (now + ucast (block_delay cfg i))) w1)
              else set_pc WFinish (ws_bridge_send_text e c (completed_message args) w)
          | WPoll i deadline \<Rightarrow>
              (case monotonic_ms e w of (now, w1) \<Rightarrow>
                 if now < deadline then set_pc (WCheck i deadline) w1 else set_pc (WSend i) w1)
          | WCheck i deadline \<Rightarrow>
              if abort_requested w \<or> stop (app w)
              then set_pc WFinish
                     (ws_bridge_send_text e c ''Firing sequence aborted by command or shutdown'' w)
              else set_pc (WPoll i deadline) w
          | WSend i \<Rightarrow>
              (case send_block e (ids cfg ! i) (fst (vals cfg ! i)) (snd (vals cfg ! i)) w of (rc, w1) \<Rightarrow>
                 if rc \<noteq> 0 then set_pc WFinish (ws_bridge_send_text e c (failed_message args) w1)
                 else set_pc (WBlock (i + 1)) w1)
          | WFinish \<Rightarrow> (finish_sequence w)\<lparr>worker := None\<rparr>)"


section \<open>What the parser accepts\<close>

definition valid_block :: "block \<Rightarrow> bool" where
  "valid_block b \<longleftrightarrow> fst b \<noteq> 0 \<and> fst b \<le> 0x7FF"

definition block_at :: "firing_sequence_config \<Rightarrow> nat \<Rightarrow> block" where
  "block_at c k = (ids c ! k, fst (vals c ! k), snd (vals c ! k), wait_times_ms c ! k)"

definition blocks_of :: "firing_sequence_config \<Rightarrow> block list" where
  "blocks_of c = map (block_at c) [0..<num_blocks c]"

definition config_shape :: "firing_sequence_config \<Rightarrow> bool" where
  "config_shape c \<longleftrightarrow> num_blocks c \<le> APP_MAX_FIRING_BLOCKS \<and> length (ids c) = APP_MAX_FIRING_BLOCKS \<and>
     length (vals c) = APP_MAX_FIRING_BLOCKS \<and> length (wait_times_ms c) = APP_MAX_FIRING_BLOCKS"

definition config_ok :: "firing_sequence_config \<Rightarrow> bool" where
  "config_ok c \<longleftrightarrow> config_shape c \<and> 0 < num_blocks c \<and> list_all valid_block (blocks_of c)"

lemma config_shape_zero: "config_shape zero_config" "blocks_of zero_config = []" "num_blocks zero_config = 0"
  "drown_injector zero_config = False"
  by (simp_all add: config_shape_def zero_config_def blocks_of_def)

lemma store_block_shape:
  assumes "config_shape c" and "num_blocks c < APP_MAX_FIRING_BLOCKS"
  shows "config_shape (store_block b c)" and "blocks_of (store_block b c) = blocks_of c @ [b]"
    and "num_blocks (store_block b c) = Suc (num_blocks c)"
proof -
  obtain i v d wt where b: "b = (i, v, d, wt)" by (cases b)
  show "config_shape (store_block b c)" "num_blocks (store_block b c) = Suc (num_blocks c)"
    using assms by (simp_all add: b store_block_def config_shape_def)
  have "block_at (store_block b c) k = (if k = num_blocks c then b else block_at c k)"
    if "k < Suc (num_blocks c)" for k
    using assms that by (simp add: b store_block_def block_at_def config_shape_def)
  then show "blocks_of (store_block b c) = blocks_of c @ [b]"
    by (simp add: blocks_of_def \<open>num_blocks (store_block b c) = Suc (num_blocks c)\<close>)
qed

definition valid_token :: "string \<Rightarrow> bool" where
  "valid_token t \<longleftrightarrow> (case scan_block t of None \<Rightarrow> False | Some b \<Rightarrow> valid_block b)"

text \<open>The loop accepts exactly when the first tokens, up to the free entries, are valid blocks, and
  then stores those; tokens beyond the last entry are never looked at.\<close>

lemma parse_blocks_spec:
  assumes "config_shape c"
  shows "if list_all valid_token (take (APP_MAX_FIRING_BLOCKS - num_blocks c) ts)
    then \<exists>c'. parse_blocks ts c = Some c' \<and> config_shape c' \<and> drown_injector c' = drown_injector c \<and>
           blocks_of c' = blocks_of c @ map (the \<circ> scan_block) (take (APP_MAX_FIRING_BLOCKS - num_blocks c) ts)
    else parse_blocks ts c = None"
  using assms
proof (induction ts arbitrary: c)
  case Nil
  then show ?case by simp
next
  case (Cons t ts)
  show ?case
  proof (cases "num_blocks c < APP_MAX_FIRING_BLOCKS")
    case False
    with Cons.prems show ?thesis by simp
  next
    case True
    then obtain n where n: "APP_MAX_FIRING_BLOCKS - num_blocks c = Suc n" "APP_MAX_FIRING_BLOCKS - Suc (num_blocks c) = n"
      by (metis Suc_diff_Suc)
    show ?thesis
    proof (cases "valid_token t")
      case False
      with True n show ?thesis
        by (auto simp: valid_token_def valid_block_def split: option.splits prod.splits)
    next
      case valid: True
      then obtain b where b: "scan_block t = Some b" "valid_block b"
        by (auto simp: valid_token_def split: option.splits)
      note s = store_block_shape[OF Cons.prems True, of b]
      have step: "parse_blocks (t # ts) c = parse_blocks ts (store_block b c)"
        using True b by (cases b) (auto simp: valid_block_def)
      have drown: "drown_injector (store_block b c) = drown_injector c"
        by (cases b) (simp add: store_block_def)
      show ?thesis
        using Cons.IH[OF s(1)] s(2,3) n valid b step drown by (simp split: if_splits)
    qed
  qed
qed

lemma length_blocks_of [simp]: "length (blocks_of c) = num_blocks c"
  by (simp add: blocks_of_def)

lemma parse_blocks_zero:
  "if list_all valid_token (take APP_MAX_FIRING_BLOCKS ts)
   then \<exists>c. parse_blocks ts zero_config = Some c \<and> config_shape c \<and> \<not> drown_injector c \<and>
          blocks_of c = map (the \<circ> scan_block) (take APP_MAX_FIRING_BLOCKS ts)
   else parse_blocks ts zero_config = None"
  using parse_blocks_spec[OF config_shape_zero(1), of ts,
      unfolded config_shape_zero(2,3,4) append_Nil diff_zero simp_thms] .

text \<open>A parsed configuration is well formed.\<close>

lemma firing_sequence_parse_ok:
  assumes "firing_sequence_parse e text w = (Some c, w')"
  shows "config_ok c" and "\<not> drown_injector c"
    and "\<exists>r. strchr CHR ''|'' text = Some r \<and>
       blocks_of c = map (the \<circ> scan_block) (take APP_MAX_FIRING_BLOCKS (strtok_all CHR ''|'' (tl r)))"
proof -
  obtain r where r: "strchr CHR ''|'' text = Some r"
    and p: "parse_blocks (strtok_all CHR ''|'' (tl r)) zero_config = Some c" and n: "0 < num_blocks c"
    using assms by (auto simp: firing_sequence_parse_def Let_def split: option.splits if_splits)
  let ?ts = "take APP_MAX_FIRING_BLOCKS (strtok_all CHR ''|'' (tl r))"
  have *: "list_all valid_token ?ts" "config_shape c" "\<not> drown_injector c"
    "blocks_of c = map (the \<circ> scan_block) ?ts"
    using parse_blocks_zero[of "strtok_all CHR ''|'' (tl r)"] p by (auto split: if_splits)
  then show "\<not> drown_injector c"
    and "\<exists>r. strchr CHR ''|'' text = Some r \<and>
       blocks_of c = map (the \<circ> scan_block) (take APP_MAX_FIRING_BLOCKS (strtok_all CHR ''|'' (tl r)))"
    using r by auto
  have "list_all valid_block (blocks_of c)"
    using *(1) by (auto simp: *(4) list_all_iff valid_token_def split: option.splits)
  with * n show "config_ok c" by (simp add: config_ok_def)
qed

lemma quiet_firing_parse [simp, intro]: "quiet w (snd (firing_sequence_parse e text w))"
  by (auto simp: firing_sequence_parse_def Let_def split: option.splits)

lemmas firing_parse_frame [simp] = quietD [OF quiet_firing_parse]

section \<open>Printing a sequence and parsing it back\<close>

definition block_text :: "block \<Rightarrow> string" where
  "block_text b = (case b of (i, v, d, wt) \<Rightarrow>
     show_03x i @ ''#'' @ show_04x v @ ''#'' @ show_u (unat d) @ ''#'' @ show_u (unat wt))"

definition fire_text :: "block list \<Rightarrow> string" where
  "fire_text bs = ''FIRE#8765'' @ concat (map (\<lambda>b. CHR ''|'' # block_text b) bs)"

lemma scan_block_text: "scan_block (block_text b) = Some b"
proof -
  obtain i v d wt where b: "b = (i, v, d, wt)" by (cases b)
  have bound: "unat (x :: u16) < 2 ^ 64" for x
    using unsigned_less[of x, where 'a = nat] by simp
  have "scan_int 10 (show_u (unat wt)) = Some (unat wt, [])"
    using scan_int_show(3)[of "[]" "unat wt"] bound by simp
  then show ?thesis
    using bound by (simp add: b block_text_def scan_block_def)
qed

interpretation block_codec: codec block_text scan_block "\<lambda>_. True"
  by unfold_locales (rule scan_block_text)

lemma block_text_token: "block_text b \<noteq> []" "CHR ''|'' \<notin> set (block_text b)"
proof -
  obtain i v d wt where b: "b = (i, v, d, wt)" by (cases b)
  show "block_text b \<noteq> []" by (simp add: b block_text_def)
  show "CHR ''|'' \<notin> set (block_text b)"
    using show_no_delims(1)[of "CHR ''|''" i v "unat d"] show_no_delims(1)[of "CHR ''|''" i v "unat wt"]
    by (auto simp: b block_text_def)
qed

lemma strtok_fire: "strtok_all CHR ''|'' (concat (map (\<lambda>b. CHR ''|'' # block_text b) bs)) = map block_text bs"
proof (induction bs)
  case Nil
  then show ?case by simp
next
  case (Cons b bs)
  show ?case
  proof (cases bs)
    case Nil
    then show ?thesis by (simp add: strtok_all_token block_text_token)
  next
    case (Cons b' bs')
    with Cons.IH show ?thesis by (simp add: strtok_all_token block_text_token)
  qed
qed


section \<open>Sending a block\<close>

lemma send_attempts_frame [simp]:
  "app (snd (send_attempts e n i v d w)) = app w" "worker (snd (send_attempts e n i v d w)) = worker w"
  "rxq (snd (send_attempts e n i v d w)) = rxq w"
  "ws_tx (trace (snd (send_attempts e n i v d w))) = ws_tx (trace w)"
  "sys_log (trace (snd (send_attempts e n i v d w))) = sys_log (trace w)"
  by (induction n arbitrary: w) (simp_all add: case_prod_beta)

text \<open>A block is written between one and three times; giving up means three failed attempts.\<close>

lemma send_attempts_tx:
  assumes "0 \<le> can_fd (app w)" and "i \<le> 0x7FF"
  shows "\<exists>k \<le> n. can_tx (trace (snd (send_attempts e n i v d w)))
        = can_tx (trace w) @ replicate k (command_frame i v d)
      \<and> (if fst (send_attempts e n i v d w) = 0 then 0 < k else k = n)"
  using assms
proof (induction n arbitrary: w)
  case 0
  then show ?case by simp
next
  case (Suc n)
  let ?r = "can_bus_send_command e (can_fd (app w)) i v d w"
  have one: "can_tx (trace (snd ?r)) = can_tx (trace w) @ [command_frame i v d]"
    using Suc.prems by (auto simp: tx_simps)
  show ?case
  proof (cases "fst ?r = 0")
    case True
    then show ?thesis using one by (intro exI [of _ 1]) (simp add: case_prod_beta)
  next
    case False
    obtain k where "k \<le> n"
      "can_tx (trace (snd (send_attempts e n i v d (snd ?r))))
        = can_tx (trace (snd ?r)) @ replicate k (command_frame i v d)"
      "if fst (send_attempts e n i v d (snd ?r)) = 0 then 0 < k else k = n"
      using Suc.IH[of "snd ?r"] Suc.prems by auto
    with one False show ?thesis
      by (intro exI [of _ "Suc k"]) (auto simp: case_prod_beta split: if_splits)
  qed
qed

text \<open>The same with the results of the writes: every attempt but the last was not written whole.\<close>

lemma send_attempts_writes:
  assumes "0 \<le> can_fd (app w)" and "i \<le> 0x7FF"
  shows "\<exists>ns. length ns \<le> Suc n \<and> ns \<noteq> [] \<and>
    writes (trace (snd (send_attempts e (Suc n) i v d w))) = writes (trace w) @ map (Pair (command_frame i v d)) ns \<and>
    (\<forall>r \<in> set (butlast ns). r \<noteq> 16) \<and>
    fst (send_attempts e (Suc n) i v d w) = (if last ns = 16 then 0 else -1) \<and>
    (last ns \<noteq> 16 \<longrightarrow> length ns = Suc n)"
  using assms
proof (induction n arbitrary: w)
  case 0
  then show ?case
    using send_command_writes[OF "0.prems" refl, of e v d]
    by (intro exI [of _ "[fst (can_write e (trace w) (command_frame i v d))]"]) (simp add: case_prod_beta)
next
  case (Suc n)
  let ?r = "can_bus_send_command e (can_fd (app w)) i v d w"
  let ?n = "fst (can_write e (trace w) (command_frame i v d))"
  note one = send_command_writes[OF Suc.prems refl, of e v d]
  show ?case
  proof (cases "?n = 16")
    case True
    then show ?thesis using one by (intro exI [of _ "[?n]"]) (simp add: case_prod_beta)
  next
    case False
    then have step: "send_attempts e (Suc (Suc n)) i v d w = send_attempts e (Suc n) i v d (snd ?r)"
      using one(2) by (simp add: case_prod_beta)
    have "0 \<le> can_fd (app (snd ?r))" using Suc.prems by simp
    from Suc.IH[OF this Suc.prems(2)] obtain ns where
      "length ns \<le> Suc n" "ns \<noteq> []"
      "writes (trace (snd (send_attempts e (Suc n) i v d (snd ?r)))) = writes (trace (snd ?r)) @ map (Pair (command_frame i v d)) ns"
      "\<forall>r \<in> set (butlast ns). r \<noteq> 16"
      "fst (send_attempts e (Suc n) i v d (snd ?r)) = (if last ns = 16 then 0 else -1)"
      "last ns \<noteq> 16 \<longrightarrow> length ns = Suc n" by blast
    then show ?thesis
      using one(1) False unfolding step by (intro exI [of _ "?n # ns"]) simp
  qed
qed

lemma send_attempts_refused: "can_fd (app w) < 0 \<or> i > 0x7FF \<Longrightarrow>
    can_tx (trace (snd (send_attempts e n i v d w))) = can_tx (trace w)"
  by (induction n arbitrary: w) (auto simp: case_prod_beta tx_simps)

lemma send_block_first_try:
  assumes "\<And>t f. fst (can_write e t f) = sizeof_can_frame" and "0 \<le> can_fd (app w)" and "i \<le> 0x7FF"
  shows "fst (send_block e i v d w) = 0"
    and "can_tx (trace (snd (send_block e i v d w))) = can_tx (trace w) @ [command_frame i v d]"
proof -
  have ok: "fst (can_bus_send_command e (can_fd (app w)) i v d w) = 0"
    using assms by (auto simp: can_bus_send_command_def Let_def case_prod_beta)
  then show "fst (send_block e i v d w) = 0"
    and "can_tx (trace (snd (send_block e i v d w))) = can_tx (trace w) @ [command_frame i v d]"
    using send_command_ok(3)[OF ok]
    by (simp_all add: send_block_def CAN_SEND_ATTEMPTS_def numeral_3_eq_3 case_prod_beta)
qed

lemma send_block_frame [simp]:
  "app (snd (send_block e i v d w)) = app w" "worker (snd (send_block e i v d w)) = worker w"
  "rxq (snd (send_block e i v d w)) = rxq w"
  "ws_tx (trace (snd (send_block e i v d w))) = ws_tx (trace w)"
  "sys_log (trace (snd (send_block e i v d w))) = sys_log (trace w)"
  by (simp_all add: send_block_def)

section \<open>Running the worker\<close>

lemma set_pc_simps [simp]:
  "app (set_pc pc w) = app w" "trace (set_pc pc w) = trace w" "rxq (set_pc pc w) = rxq w"
  "logger (set_pc pc w) = logger w"
  "worker (set_pc pc w) = map_option (\<lambda>k. k\<lparr>wpc := pc\<rparr>) (worker w)"
  by (simp_all add: set_pc_def)

definition run :: "env \<Rightarrow> nat \<Rightarrow> world \<Rightarrow> world" where
  "run e n w = (worker_step e ^^ n) w"

lemma run_simps [simp]: "run e 0 w = w" "run e (Suc n) w = run e n (worker_step e w)"
  by (simp_all add: run_def funpow_swap1)

lemma run_add: "run e (m + n) w = run e n (run e m w)"
  by (induction m arbitrary: w) simp_all

text \<open>The clock readings of a loop that does nothing but poll, and the documented promise of a
  monotonic clock that such a loop sees every deadline pass.\<close>

definition reading :: "env \<Rightarrow> trace \<Rightarrow> u64" where
  "reading e t = (case clock_gettime e t CLOCK_MONOTONIC of (rc, sec, nsec) \<Rightarrow> sec * 1000 + nsec div 1000000)"

fun poll_trace :: "env \<Rightarrow> nat \<Rightarrow> trace \<Rightarrow> trace" where
  "poll_trace e 0 t = t"
| "poll_trace e (Suc n) t = poll_trace e n (EvClock CLOCK_MONOTONIC (reading e t) # t)"

definition clock_passes :: "env \<Rightarrow> bool" where
  "clock_passes e \<longleftrightarrow> (\<forall>t d. \<exists>n. d \<le> reading e (poll_trace e n t))"

lemma monotonic_reading:
  "monotonic_ms e w = (reading e (trace w), log_event (EvClock CLOCK_MONOTONIC (reading e (trace w))) w)"
  by (simp add: monotonic_ms_def reading_def Let_def split: prod.splits)

text \<open>\<open>at_pc\<close> says that the worker of a world stands at a program point with the given arguments.\<close>

definition at_pc :: "sequence_worker_args \<Rightarrow> worker_pc \<Rightarrow> world \<Rightarrow> bool" where
  "at_pc args pc w \<longleftrightarrow> worker w = Some \<lparr>wargs = args, wpc = pc\<rparr>"

lemma at_pc_set: "at_pc args pc w \<Longrightarrow> at_pc args pc' (set_pc pc' w)"
  by (simp add: at_pc_def)

definition interrupted :: "world \<Rightarrow> bool" where
  "interrupted w \<longleftrightarrow> sequence_abort (app w) \<or> stop (app w)"

text \<open>Single steps.\<close>

lemma step_start:
  assumes "at_pc args WStart w"
  shows "at_pc args (WBlock 0) (worker_step e w)" and "silent_can (set_pc (WBlock 0) w) (worker_step e w)"
  using assms by (simp_all add: at_pc_def worker_step_def silent_can_def)

lemma step_block:
  assumes "at_pc args (WBlock i) w" and "i < num_blocks (arg_config args)"
  shows "at_pc args (WPoll i (reading e (trace w) + ucast (block_delay (arg_config args) i))) (worker_step e w)"
    and "app (worker_step e w) = app w" and "can_tx (trace (worker_step e w)) = can_tx (trace w)"
  using assms by (simp_all add: at_pc_def worker_step_def monotonic_reading)

lemma step_block_done:
  assumes "at_pc args (WBlock i) w" and "num_blocks (arg_config args) \<le> i"
  shows "at_pc args WFinish (worker_step e w)"
    and "app (worker_step e w) = app w" and "can_tx (trace (worker_step e w)) = can_tx (trace w)"
  using assms by (simp_all add: at_pc_def worker_step_def)

lemma step_poll:
  assumes "at_pc args (WPoll i d) w"
  shows "at_pc args (if reading e (trace w) < d then WCheck i d else WSend i) (worker_step e w)"
    and "app (worker_step e w) = app w" and "can_tx (trace (worker_step e w)) = can_tx (trace w)"
    and "trace (worker_step e w) = EvClock CLOCK_MONOTONIC (reading e (trace w)) # trace w"
  using assms by (simp_all add: at_pc_def worker_step_def monotonic_reading)

lemma step_check:
  assumes "at_pc args (WCheck i d) w"
  shows "at_pc args (if interrupted w then WFinish else WPoll i d) (worker_step e w)"
    and "app (worker_step e w) = app w" and "can_tx (trace (worker_step e w)) = can_tx (trace w)"
    and "\<not> interrupted w \<Longrightarrow> trace (worker_step e w) = trace w"
  using assms by (simp_all add: at_pc_def worker_step_def abort_requested_def interrupted_def)

lemma step_finish:
  assumes "at_pc args WFinish w"
  shows "worker (worker_step e w) = None" and "\<not> sequence_active (app (worker_step e w))"
    and "can_tx (trace (worker_step e w)) = can_tx (trace w)"
  using assms by (simp_all add: at_pc_def worker_step_def finish_sequence_def)

definition send_result :: "env \<Rightarrow> firing_sequence_config \<Rightarrow> nat \<Rightarrow> world \<Rightarrow> int \<times> world" where
  "send_result e cfg i w = send_block e (ids cfg ! i) (fst (vals cfg ! i)) (snd (vals cfg ! i)) w"

lemma step_send:
  assumes "at_pc args (WSend i) w"
  shows "at_pc args (if fst (send_result e (arg_config args) i w) \<noteq> 0 then WFinish else WBlock (Suc i))
      (worker_step e w)"
    and "app (worker_step e w) = app w"
    and "can_tx (trace (worker_step e w)) = can_tx (trace (snd (send_result e (arg_config args) i w)))"
  using assms by (simp_all add: at_pc_def worker_step_def case_prod_beta send_result_def Let_def)

text \<open>A wait ends: with the block to send when nothing interrupts, at \<open>WFinish\<close> or with the block
  otherwise.\<close>

lemma wait_ends:
  assumes "at_pc args (WPoll i d) w" and "d \<le> reading e (poll_trace e n (trace w))"
  shows "\<exists>m. (at_pc args (WSend i) (run e m w) \<or> interrupted w \<and> at_pc args WFinish (run e m w))
    \<and> app (run e m w) = app w \<and> can_tx (trace (run e m w)) = can_tx (trace w)"
  using assms
proof (induction n arbitrary: w)
  case 0
  then have "\<not> reading e (trace w) < d" by (simp add: not_less)
  then show ?case using step_poll[OF "0"(1), of e] by (intro exI [of _ 1]) simp
next
  case (Suc n)
  note p = step_poll[OF Suc.prems(1), of e]
  show ?case
  proof (cases "reading e (trace w) < d")
    case False
    then show ?thesis using p by (intro exI [of _ 1]) simp
  next
    case True
    let ?w1 = "worker_step e w" and ?w2 = "worker_step e (worker_step e w)"
    have c: "at_pc args (WCheck i d) ?w1" using p True by simp
    note c' = step_check[OF c, of e]
    show ?thesis
    proof (cases "interrupted ?w1")
      case int: True
      then have "interrupted w" using p(2) by (simp add: interrupted_def)
      with int c' p show ?thesis by (intro exI [of _ "Suc (Suc 0)"]) simp
    next
      case False
      with c' p Suc.prems have "at_pc args (WPoll i d) ?w2"
        "d \<le> reading e (poll_trace e n (trace ?w2))" by simp_all
      from Suc.IH[OF this] obtain m where m:
        "at_pc args (WSend i) (run e m ?w2) \<or> interrupted ?w2 \<and> at_pc args WFinish (run e m ?w2)"
        "app (run e m ?w2) = app ?w2" "can_tx (trace (run e m ?w2)) = can_tx (trace ?w2)" by blast
      have "interrupted ?w2 = interrupted w" using c' p by (simp add: interrupted_def)
      with m c' p show ?thesis by (intro exI [of _ "Suc (Suc m)"]) simp
    qed
  qed
qed


text \<open>Whatever happens, a worker left to itself ends and releases the sequence.\<close>

definition released :: "world \<Rightarrow> bool" where
  "released w \<longleftrightarrow> worker w = None \<and> \<not> sequence_active (app w)"

lemma finish_ends: "at_pc args WFinish w \<Longrightarrow> \<exists>m. released (run e m w)"
  using step_finish[of args w e] by (intro exI [of _ 1]) (simp add: released_def)

lemma run_compose: "\<exists>m. P (run e m (run e n w)) \<Longrightarrow> \<exists>m. P (run e m w)"
  by (metis run_add)

lemma block_loop_ends:
  assumes "clock_passes e" and "at_pc args (WBlock i) w"
  shows "\<exists>m. released (run e m w)"
  using assms(2)
proof (induction "num_blocks (arg_config args) - i" arbitrary: i w)
  case 0
  then have "at_pc args WFinish (run e 1 w)" using step_block_done[of args i w e] by simp
  then show ?case by (rule run_compose [OF finish_ends])
next
  case (Suc n)
  then have "i < num_blocks (arg_config args)" by simp
  with step_block[OF Suc.prems, of e] obtain d where w1: "at_pc args (WPoll i d) (run e 1 w)"
    by (metis One_nat_def run_simps)
  obtain k where "d \<le> reading e (poll_trace e k (trace (run e 1 w)))"
    using assms(1) by (auto simp: clock_passes_def)
  with wait_ends[OF w1] obtain m where
    "at_pc args (WSend i) (run e m (run e 1 w)) \<or> at_pc args WFinish (run e m (run e 1 w))" by blast
  then have "\<exists>j. released (run e j (run e m (run e 1 w)))"
  proof
    assume "at_pc args WFinish (run e m (run e 1 w))"
    then show ?thesis by (rule finish_ends)
  next
    let ?w = "run e m (run e 1 w)"
    assume "at_pc args (WSend i) ?w"
    then have "at_pc args WFinish (run e 1 ?w) \<or> at_pc args (WBlock (Suc i)) (run e 1 ?w)"
      using step_send(1)[of args i ?w e] by (simp split: if_splits)
    then have "\<exists>j. released (run e j (run e 1 ?w))"
      using finish_ends[of args "run e 1 ?w" e] Suc.hyps(1)[of "Suc i" "run e 1 ?w"] Suc.hyps(2) by auto
    then show ?thesis by (rule run_compose)
  qed
  then obtain j where "released (run e (1 + m + j) w)" by (auto simp only: run_add)
  then show ?case by blast
qed

lemma worker_ends:
  assumes "clock_passes e" and "at_pc args WStart w"
  shows "\<exists>m. released (run e m w)"
proof -
  have "at_pc args (WBlock 0) (run e 1 w)" using step_start[OF assms(2), of e] by simp
  from block_loop_ends[OF assms(1) this] show ?thesis by (rule run_compose)
qed

text \<open>When every write succeeds and nothing interrupts, the frames of the blocks go out in order,
  each exactly once.\<close>

definition block_frame :: "block \<Rightarrow> can_frame" where
  "block_frame b = (case b of (i, v, d, wt) \<Rightarrow> command_frame i v d)"

definition writes_succeed :: "env \<Rightarrow> bool" where
  "writes_succeed e \<longleftrightarrow> (\<forall>t f. fst (can_write e t f) = sizeof_can_frame)"

lemma nth_blocks_of: "i < num_blocks c \<Longrightarrow> blocks_of c ! i = block_at c i"
  by (simp add: blocks_of_def)

lemma one_block:
  assumes "clock_passes e" and "writes_succeed e" and "config_ok (arg_config args)"
    and "at_pc args (WBlock i) w" and "i < num_blocks (arg_config args)"
    and "\<not> interrupted w" and "0 \<le> can_fd (app w)"
  shows "\<exists>m. at_pc args (WBlock (Suc i)) (run e m w) \<and> app (run e m w) = app w
    \<and> can_tx (trace (run e m w)) = can_tx (trace w) @ [block_frame (blocks_of (arg_config args) ! i)]"
proof -
  let ?cfg = "arg_config args"
  note b = step_block[OF assms(4,5), of e]
  obtain d where p: "at_pc args (WPoll i d) (worker_step e w)" using b(1) by blast
  obtain k where "d \<le> reading e (poll_trace e k (trace (worker_step e w)))"
    using assms(1) by (auto simp: clock_passes_def)
  from wait_ends[OF p this] obtain m where m: "at_pc args (WSend i) (run e m (worker_step e w))"
    "app (run e m (worker_step e w)) = app w"
    "can_tx (trace (run e m (worker_step e w))) = can_tx (trace w)"
    using assms(6) b(2,3) by (auto simp: interrupted_def)
  let ?w = "run e m (worker_step e w)"
  have valid: "valid_block (block_at ?cfg i)"
    using assms(3,5) by (simp add: config_ok_def list_all_length nth_blocks_of)
  then have idok: "ids ?cfg ! i \<le> 0x7FF" by (simp add: valid_block_def block_at_def)
  have fd: "0 \<le> can_fd (app ?w)" using m(2) assms(7) by simp
  have wr: "\<And>t f. fst (can_write e t f) = sizeof_can_frame"
    using assms(2) by (simp add: writes_succeed_def)
  note sb = send_block_first_try[OF wr fd idok]
  have "at_pc args (WBlock (Suc i)) (worker_step e ?w)" "app (worker_step e ?w) = app w"
    "can_tx (trace (worker_step e ?w)) = can_tx (trace w) @ [block_frame (block_at ?cfg i)]"
    using step_send[OF m(1), of e] m(2,3) sb by (simp_all add: send_result_def block_frame_def block_at_def)
  moreover have "worker_step e ?w = run e (Suc (m + 1)) w"
    by (simp only: run_simps(2) run_add) simp
  ultimately show ?thesis
    using assms(5) by (intro exI [of _ "Suc (m + 1)"]) (simp add: nth_blocks_of)
qed

lemma all_blocks:
  assumes "clock_passes e" and "writes_succeed e" and "config_ok (arg_config args)"
    and "at_pc args (WBlock i) w" and "i \<le> num_blocks (arg_config args)"
    and "\<not> interrupted w" and "0 \<le> can_fd (app w)"
  shows "\<exists>m. released (run e m w) \<and>
    can_tx (trace (run e m w)) = can_tx (trace w) @ map block_frame (drop i (blocks_of (arg_config args)))"
  using assms(4-7)
proof (induction "num_blocks (arg_config args) - i" arbitrary: i w)
  case 0
  then have i: "num_blocks (arg_config args) \<le> i" by simp
  note d = step_block_done[OF "0.prems"(1) i, of e]
  note f = step_finish[OF d(1), of e]
  show ?case using d f i by (intro exI [of _ "Suc (Suc 0)"]) (simp add: released_def)
next
  case (Suc n)
  then have i: "i < num_blocks (arg_config args)" by simp
  from one_block[OF assms(1-3) Suc.prems(1) i Suc.prems(3,4)] obtain m where
    m: "at_pc args (WBlock (Suc i)) (run e m w)" "app (run e m w) = app w"
      "can_tx (trace (run e m w)) = can_tx (trace w) @ [block_frame (blocks_of (arg_config args) ! i)]"
    by blast
  have "n = num_blocks (arg_config args) - Suc i" using Suc.hyps(2) by simp
  from Suc.hyps(1)[OF this m(1)] i m(2) Suc.prems(3,4) obtain j where
    "released (run e j (run e m w))"
    "can_tx (trace (run e j (run e m w))) = can_tx (trace (run e m w))
       @ map block_frame (drop (Suc i) (blocks_of (arg_config args)))"
    by (auto simp: interrupted_def)
  with m(3) i show ?case
    by (intro exI [of _ "m + j"]) (simp add: run_add Cons_nth_drop_Suc [symmetric])
qed


section \<open>The worker among other threads\<close>

text \<open>The worlds a run passes through when other threads act between the steps of the worker:
  \<open>None\<close> is a step of the worker, \<open>Some f\<close> an action \<open>f\<close> of another thread.\<close>

fun visited :: "env \<Rightarrow> (world \<Rightarrow> world) option list \<Rightarrow> world \<Rightarrow> world list" where
  "visited e [] w = [w]"
| "visited e (None # acts) w = w # visited e acts (worker_step e w)"
| "visited e (Some f # acts) w = w # visited e acts (f w)"

text \<open>No other thread touches the program counter or the arguments of the worker.\<close>

definition leaves_worker :: "(world \<Rightarrow> world) \<Rightarrow> bool" where
  "leaves_worker f \<longleftrightarrow> (\<forall>v. worker (f v) = worker v)"

lemma visited_nth_0 [simp]: "visited e acts w ! 0 = w"
  by (cases "(e, acts, w)" rule: visited.cases) simp_all

text \<open>Still waiting for block \<open>i\<close>, or about to end without sending it.\<close>

definition waiting :: "sequence_worker_args \<Rightarrow> nat \<Rightarrow> u64 \<Rightarrow> world \<Rightarrow> bool" where
  "waiting args i d w \<longleftrightarrow> worker w = None \<or> (\<exists>pc \<in> {WPoll i d, WCheck i d, WFinish}. at_pc args pc w)"

lemma waiting_step:
  assumes "waiting args i d w"
  shows "can_tx (trace (worker_step e w)) = can_tx (trace w)"
    and "waiting args i d (worker_step e w) \<or> at_pc args (WPoll i d) w \<and> d \<le> reading e (trace w)"
proof -
  consider "worker w = None" | "at_pc args (WPoll i d) w" | "at_pc args (WCheck i d) w" | "at_pc args WFinish w"
    using assms by (auto simp: waiting_def)
  then have "can_tx (trace (worker_step e w)) = can_tx (trace w) \<and>
    (waiting args i d (worker_step e w) \<or> at_pc args (WPoll i d) w \<and> d \<le> reading e (trace w))"
  proof cases
    case 1
    then show ?thesis by (simp add: worker_step_def waiting_def)
  next
    case 2
    then show ?thesis using step_poll(1,3)[OF 2, of e] by (auto simp: waiting_def split: if_splits)
  next
    case 3
    then show ?thesis using step_check(1,3)[OF 3, of e] by (auto simp: waiting_def split: if_splits)
  next
    case 4
    then show ?thesis using step_finish[OF 4, of e] by (simp add: waiting_def)
  qed
  then show "can_tx (trace (worker_step e w)) = can_tx (trace w)"
    and "waiting args i d (worker_step e w) \<or> at_pc args (WPoll i d) w \<and> d \<le> reading e (trace w)"
    by blast+
qed

text \<open>A worker that waits sends nothing before it has itself read a time at or after its deadline.\<close>

lemma waiting_sends_late:
  assumes "waiting args i d w" and "\<forall>f. Some f \<in> set acts \<longrightarrow> leaves_worker f"
    and "k < length acts" and "acts ! k = None"
    and "can_tx (trace (visited e acts w ! Suc k)) \<noteq> can_tx (trace (visited e acts w ! k))"
  shows "\<exists>m < k. acts ! m = None \<and> at_pc args (WPoll i d) (visited e acts w ! m) \<and>
    d \<le> reading e (trace (visited e acts w ! m))"
  using assms
proof (induction acts arbitrary: w k)
  case Nil
  then show ?case by simp
next
  case (Cons a acts)
  let ?w = "case a of None \<Rightarrow> worker_step e w | Some f \<Rightarrow> f w"
  have vis: "visited e (a # acts) w = w # visited e acts ?w" by (cases a) simp_all
  show ?case
  proof (cases k)
    case 0
    then show ?thesis using Cons.prems waiting_step(1)[OF Cons.prems(1), of e] by (simp add: vis)
  next
    case (Suc j)
    consider "waiting args i d ?w" | "a = None" "at_pc args (WPoll i d) w" "d \<le> reading e (trace w)"
      using waiting_step(2)[OF Cons.prems(1), of e] Cons.prems(1,2)
      by (cases a) (auto simp: leaves_worker_def waiting_def at_pc_def)
    then show ?thesis
    proof cases
      case 1
      from Cons.IH[OF 1, of j] Cons.prems(2-) Suc obtain m where
        "m < j" "acts ! m = None" "at_pc args (WPoll i d) (visited e acts ?w ! m)"
        "d \<le> reading e (trace (visited e acts ?w ! m))" by (auto simp: vis)
      then show ?thesis using Suc by (intro exI [of _ "Suc m"]) (simp add: vis)
    next
      case 2
      then show ?thesis using Suc by (intro exI [of _ 0]) simp
    qed
  qed
qed

section \<open>Starting and aborting\<close>

text \<open>Every outcome of \<^verbatim>\<open>firing_sequence_start\<close>: refused with nothing changed, failed with the
  sequence released, or a new worker at its first step.\<close>

lemma firing_start_cases:
  assumes "firing_sequence_start e c cfg sm cm fm w = (rc, w')"
  obtains (refused) "rc = -1" "w' = w" "num_blocks cfg = 0 \<or> sequence_active (app w)"
  | (failed) "rc = -1" "app w' = (app w)\<lparr>sequence_active := False, sequence_abort := False\<rparr>"
      "worker w' = worker w" "\<not> sequence_active (app w)" "0 < num_blocks cfg"
      "rxq w' = rxq w" "can_tx (trace w') = can_tx (trace w)"
  | (started) args where "rc = 0" "app w' = (app w)\<lparr>sequence_active := True, sequence_abort := False\<rparr>"
      "at_pc args WStart w'" "arg_config args = cfg" "arg_client args = c"
      "\<not> sequence_active (app w)" "0 < num_blocks cfg"
      "rxq w' = rxq w" "can_tx (trace w') = can_tx (trace w)"
proof -
  note defs = firing_sequence_start_def finish_sequence_def Let_def at_pc_def
  let ?args = "\<lparr>arg_client = c, arg_config = cfg, started_message = trunc_buf 160 sm,
    completed_message = trunc_buf 128 cm, failed_message = trunc_buf 128 fm\<rparr>"
  show thesis
  proof (cases "num_blocks cfg = 0 \<or> sequence_active (app w)")
    case True
    then have "firing_sequence_start e c cfg sm cm fm w = (-1, w)"
      by (auto simp: firing_sequence_start_def)
    with assms True show ?thesis by (intro refused) simp_all
  next
    case new: False
    then have pos: "0 < num_blocks cfg" "\<not> sequence_active (app w)" by simp_all
    show ?thesis
    proof (cases "alloc_ok e (trace w) \<and> thread_create e (EvAlloc True # trace w) = 0")
      case True
      show ?thesis
        by (rule started[of ?args]) (use assms pos True in \<open>simp_all add: defs, auto\<close>)
    next
      case False
      show ?thesis
        by (rule failed) (use assms pos False in \<open>auto simp: defs split: if_splits\<close>)
    qed
  qed
qed

lemma firing_start_tx [simp]:
  "can_tx (trace (snd (firing_sequence_start e c cfg sm cm fm w))) = can_tx (trace w)"
  "ws_tx (trace (snd (firing_sequence_start e c cfg sm cm fm w))) = ws_tx (trace w)"
  "rxq (snd (firing_sequence_start e c cfg sm cm fm w)) = rxq w"
  "sys_log (trace (snd (firing_sequence_start e c cfg sm cm fm w))) = sys_log (trace w)"
  by (simp_all add: firing_sequence_start_def finish_sequence_def Let_def)

definition valve_ok :: "valve_profile \<Rightarrow> bool" where
  "valve_ok v \<longleftrightarrow> lox_main_valve_id v \<le> 0x7FF \<and> lox_vent_valve_id v \<le> 0x7FF \<and>
     lox_main_angle_open v \<le> 0xB4 \<and> lox_vent_angle_close v \<le> 0xB4"

lemma valve_ok_default: "valve_ok default_valve"
  by (simp add: valve_ok_def default_valve_def)

lemma blocks_of_drown: "blocks_of (drown_config v) =
  [(lox_main_valve_id v, lox_main_angle_open v, 0, 100), (lox_vent_valve_id v, lox_vent_angle_close v, 1000, 0)]"
  by (simp add: blocks_of_def block_at_def drown_config_def APP_MAX_FIRING_BLOCKS_def upt_rec)

lemma drown_config_ok:
  assumes "valve_ok v" and "lox_main_valve_id v \<noteq> 0" and "lox_vent_valve_id v \<noteq> 0"
  shows "config_ok (drown_config v)"
proof -
  have "config_shape (drown_config v)" "0 < num_blocks (drown_config v)"
    by (simp_all add: config_shape_def drown_config_def zero_config_def APP_MAX_FIRING_BLOCKS_def)
  then show ?thesis
    using assms by (simp add: config_ok_def blocks_of_drown valid_block_def valve_ok_def)
qed

text \<open>An abort that the worker sees while it waits ends the sequence without another frame.\<close>

lemma abort_seen:
  assumes "at_pc args (WCheck i d) w" and "interrupted w"
  shows "released (run e 2 w)" and "can_tx (trace (run e 2 w)) = can_tx (trace w)"
proof -
  note c = step_check[OF assms(1), of e]
  have f: "at_pc args WFinish (worker_step e w)" using c(1) assms(2) by simp
  show "released (run e 2 w)" and "can_tx (trace (run e 2 w)) = can_tx (trace w)"
    using step_finish[OF f, of e] c(3) by (simp_all add: numeral_2_eq_2 released_def)
qed

text \<open>An abort is not looked at once the deadline has passed: the block of an expired wait goes out
  even though the abort was requested before.\<close>

lemma abort_after_deadline:
  assumes "at_pc args (WPoll i d) w" and "d \<le> reading e (trace w)"
  shows "can_tx (trace (run e 2 w)) = can_tx (trace (snd (send_result e (arg_config args) i (worker_step e w))))"
proof -
  have "at_pc args (WSend i) (worker_step e w)"
    using step_poll(1)[OF assms(1), of e] assms(2) by (simp add: not_less [symmetric])
  from step_send(3)[OF this, of e] show ?thesis by (simp add: numeral_2_eq_2)
qed

section \<open>Properties\<close>

lemma sample_clock_passes: "clock_passes sample_env"
proof (unfold clock_passes_def, intro allI)
  fix t d
  have len: "length (poll_trace e n t) = n + length t" for e n t
    by (induction n arbitrary: t) simp_all
  have "reading sample_env (poll_trace sample_env 18446744073709551 t) = - 1"
    by (simp add: reading_def sample_env_def len [unfolded sample_env_def])
  then show "\<exists>n. d \<le> reading sample_env (poll_trace sample_env n t)"
    by (intro exI [of _ 18446744073709551]) simp
qed

lemma sample_writes_succeed: "writes_succeed sample_env"
  by (simp add: writes_succeed_def sample_env_def sizeof_can_frame_def)

text \<open>C6.  A firing sequence that has been started ends: when the clock passes every deadline, the
  thread left to itself reaches its end after finitely many steps and releases the sequence, whatever
  the outcome of the writes and whether or not an abort is pending.\<close>

theorem sequence_terminates:
  assumes "firing_sequence_start e c cfg sm cm fm w = (0, w')" and "clock_passes e"
  shows "\<exists>m. worker (run e m w') = None \<and> \<not> sequence_active (app (run e m w'))"
  using assms(1)
proof (cases rule: firing_start_cases)
  case (started args)
  from worker_ends[OF assms(2) this(3)] show ?thesis by (simp add: released_def)
qed simp_all

definition sample_fire :: firing_sequence_config where
  "sample_fire = store_block (0x709, 0x99, 100, 500) (store_block (0x702, 0x74, 0, 0) zero_config)"

lemma sample_fire_simps: "num_blocks sample_fire = 2" "ids sample_fire ! 0 = 0x702"
  by (simp_all add: sample_fire_def store_block_def zero_config_def APP_MAX_FIRING_BLOCKS_def)

theorem sequence_terminates_witness:
  "\<exists>m. worker (run sample_env m (snd (firing_sequence_start sample_env 1 sample_fire [] [] [] hotfire_world))) = None"
proof -
  have "firing_sequence_start sample_env 1 sample_fire [] [] [] hotfire_world =
      (0, snd (firing_sequence_start sample_env 1 sample_fire [] [] [] hotfire_world))"
    by (simp add: firing_sequence_start_def sample_fire_simps sample_simps Let_def)
  from sequence_terminates[OF this sample_clock_passes] show ?thesis by blast
qed

text \<open>C7.  At most one firing sequence exists: a start while one is active returns \<open>-1\<close> and changes
  nothing at all; a start that returns 0 had no sequence active before, marks it active, clears a stale
  abort request, and hands the given configuration to exactly one new thread; any other outcome leaves
  no sequence active and no new thread.\<close>

theorem sequence_exclusive:
  "if num_blocks cfg = 0 \<or> sequence_active (app w)
   then firing_sequence_start e c cfg sm cm fm w = (-1, w)
   else \<exists>rc w'. firing_sequence_start e c cfg sm cm fm w = (rc, w') \<and>
     (if rc = 0
      then app w' = (app w)\<lparr>sequence_active := True, sequence_abort := False\<rparr> \<and>
        (\<exists>k. worker w' = Some k \<and> arg_config (wargs k) = cfg \<and> wpc k = WStart)
      else rc = -1 \<and> \<not> sequence_active (app w') \<and> worker w' = worker w)"
proof -
  obtain rc w' where r: "firing_sequence_start e c cfg sm cm fm w = (rc, w')" by fastforce
  from r show ?thesis
    by (cases rule: firing_start_cases) (auto simp: r at_pc_def)
qed

text \<open>C8.  The FIRE parser accepts exactly the commands with a separator whose non-empty fields after
  it, the first twenty-four of them, are all well-formed blocks with a standard non-zero identifier, at
  least one; the configuration then lists those blocks in order.\<close>

theorem parse_accepts_exactly:
  assumes "strchr CHR ''|'' text = Some r" and "alloc_ok e (trace w)"
    and "ts = take APP_MAX_FIRING_BLOCKS (filter (\<lambda>t. t \<noteq> []) (split_on CHR ''|'' (tl r)))"
  shows "case fst (firing_sequence_parse e text w) of
      None \<Rightarrow> ts = [] \<or> \<not> list_all valid_token ts
    | Some c \<Rightarrow> ts \<noteq> [] \<and> list_all valid_token ts \<and> map Some (blocks_of c) = map scan_block ts"
proof -
  let ?all = "strtok_all CHR ''|'' (tl r)"
  have ts: "ts = take APP_MAX_FIRING_BLOCKS ?all" using assms(3) by (simp add: strtok_all_split)
  have p: "fst (firing_sequence_parse e text w) =
      (case parse_blocks ?all zero_config of None \<Rightarrow> None | Some c \<Rightarrow> if num_blocks c > 0 then Some c else None)"
    using assms(1,2) by (simp add: firing_sequence_parse_def Let_def split: option.splits)
  show ?thesis
  proof (cases "list_all valid_token ts")
    case False
    then show ?thesis using p parse_blocks_zero[of ?all] ts by simp
  next
    case True
    then obtain c where c: "parse_blocks ?all zero_config = Some c" "blocks_of c = map (the \<circ> scan_block) ts"
      using parse_blocks_zero[of ?all] ts by auto
    have len: "num_blocks c = length ts" using arg_cong[OF c(2), of length] by simp
    have "map Some (blocks_of c) = map scan_block ts"
      using True by (auto simp: c(2) list_all_iff valid_token_def split: option.splits)
    then show ?thesis using p c(1) True len by simp
  qed
qed

theorem parse_accepts_exactly_witness:
  "map_option blocks_of (fst (firing_sequence_parse sample_env (fire_text [(0x709, 0x99, 100, 0)]) sample_world))
    = Some [(0x709, 0x99, 100, 0)]"
proof -
  let ?b = "(0x709, 0x99, 100, 0) :: block"
  have sc: "strchr CHR ''|'' (fire_text [?b]) = Some (CHR ''|'' # block_text ?b)"
    by (simp add: strchr_def fire_text_def)
  have tok: "valid_token (block_text ?b)"
    by (simp add: valid_token_def scan_block_text valid_block_def)
  have mem: "alloc_ok sample_env (trace sample_world)" by (simp add: sample_env_def)
  have ts: "[block_text ?b] = take APP_MAX_FIRING_BLOCKS
      (filter (\<lambda>t. t \<noteq> []) (split_on CHR ''|'' (tl (CHR ''|'' # block_text ?b))))"
    by (simp add: split_on_token block_text_token APP_MAX_FIRING_BLOCKS_def)
  show ?thesis
    using parse_accepts_exactly[OF sc mem ts] tok by (auto simp: scan_block_text split: option.splits)
qed

text \<open>C10.  A block is written to the bus once to three times, always as the same frame; another attempt is
  made only when \<^verbatim>\<open>write\<close> did not take the sixteen bytes of the frame, the result is 0 exactly when the last
  write took them, and giving up means exactly three writes that did not.\<close>

theorem block_attempts:
  assumes "0 \<le> can_fd (app w)" and "i \<le> 0x7FF"
  shows "\<exists>ns. length ns \<in> {1..3} \<and>
    writes (trace (snd (send_block e i v d w))) = writes (trace w) @ map (\<lambda>n. (command_frame i v d, n)) ns \<and>
    (\<forall>n \<in> set (butlast ns). n \<noteq> 16) \<and>
    (if last ns = 16 then fst (send_block e i v d w) = 0
     else fst (send_block e i v d w) = -1 \<and> length ns = 3)"
proof -
  obtain ns where ns: "length ns \<le> Suc 2" "ns \<noteq> []"
    "writes (trace (snd (send_block e i v d w))) = writes (trace w) @ map (Pair (command_frame i v d)) ns"
    "\<forall>n \<in> set (butlast ns). n \<noteq> 16" "fst (send_block e i v d w) = (if last ns = 16 then 0 else -1)"
    "last ns \<noteq> 16 \<longrightarrow> length ns = Suc 2"
    using send_attempts_writes[OF assms, of 2 e v d] by (auto simp: send_block_def CAN_SEND_ATTEMPTS_def numeral_3_eq_3 numeral_2_eq_2)
  then have "length ns \<in> {1..3}" by (simp add: Suc_le_eq)
  with ns(3-) show ?thesis by (intro exI [of _ ns]) (simp add: numeral_3_eq_3 numeral_2_eq_2)
qed

theorem block_attempts_witness:
  "\<exists>ns. length ns \<in> {1..3} \<and> writes (trace (snd (send_block sample_env 0x709 0x99 0 sample_world)))
      = map (\<lambda>n. (command_frame 0x709 0x99 0, n)) ns"
  using block_attempts[of sample_world "0x709" sample_env "0x99" 0] by (auto simp: sample_simps)

text \<open>C11.  An abort request or a shutdown that the waiting thread sees ends the sequence: two steps
  later the thread is gone, the sequence is released, no frame was sent, and the client was told.\<close>

theorem abort_while_waiting:
  assumes "worker w = Some \<lparr>wargs = args, wpc = WCheck i deadline\<rparr>" and "sequence_abort (app w) \<or> stop (app w)"
  shows "worker (run e 2 w) = None \<and> \<not> sequence_active (app (run e 2 w)) \<and>
    can_tx (trace (run e 2 w)) = can_tx (trace w) \<and>
    ws_tx (trace (run e 2 w)) = ws_tx (trace w) @
      (if ws (app w) \<and> ws_ready e w (arg_client args)
       then [(arg_client args, ''Firing sequence aborted by command or shutdown'')] else [])"
proof -
  have "at_pc args (WCheck i deadline) w" "interrupted w"
    using assms by (simp_all add: at_pc_def interrupted_def)
  from abort_seen[OF this, of e] show ?thesis
    using assms by (auto simp: released_def numeral_2_eq_2 worker_step_def abort_requested_def finish_sequence_def send_text_tx)
qed

definition waiting_world :: "worker_pc \<Rightarrow> bool \<Rightarrow> world" where
  "waiting_world pc abort_flag = hotfire_world\<lparr>
     app := (app hotfire_world)\<lparr>sequence_active := True, sequence_abort := abort_flag\<rparr>,
     worker := Some \<lparr>wargs = \<lparr>arg_client = 1, arg_config = sample_fire, started_message = [],
       completed_message = [], failed_message = []\<rparr>, wpc = pc\<rparr>\<rparr>"

theorem abort_while_waiting_witness:
  "worker (run sample_env 2 (waiting_world (WCheck 1 5000) True)) = None \<and>
   can_tx (trace (run sample_env 2 (waiting_world (WCheck 1 5000) True))) = []"
  using abort_while_waiting[of "waiting_world (WCheck 1 5000) True" _ 1 5000 sample_env]
  by (simp add: waiting_world_def sample_simps)

text \<open>C12.  The abort flag is not consulted once the deadline of a wait has passed: the block goes to
  the bus in two steps although the abort was requested before.  With a wait of zero, or a deadline
  passed while the thread slept, an abort is therefore seen one block late.\<close>

theorem abort_missed_after_deadline:
  assumes "worker w = Some \<lparr>wargs = args, wpc = WPoll i deadline\<rparr>" and "sequence_abort (app w)"
    and "deadline \<le> fst (monotonic_ms e w)"
    and "0 \<le> can_fd (app w)" and "ids (arg_config args) ! i \<le> 0x7FF"
  shows "\<exists>k \<ge> 1. can_tx (trace (run e 2 w)) = can_tx (trace w)
    @ replicate k (command_frame (ids (arg_config args) ! i) (fst (vals (arg_config args) ! i)) (snd (vals (arg_config args) ! i)))"
proof -
  let ?c = "arg_config args"
  have pc: "at_pc args (WPoll i deadline) w" and dl: "deadline \<le> reading e (trace w)"
    using assms by (simp_all add: at_pc_def monotonic_reading)
  note p = step_poll[OF pc, of e]
  have "0 \<le> can_fd (app (worker_step e w))" using p(2) assms(4) by simp
  from send_attempts_tx[OF this assms(5), of CAN_SEND_ATTEMPTS e "fst (vals ?c ! i)" "snd (vals ?c ! i)"] obtain k where
    "can_tx (trace (snd (send_result e ?c i (worker_step e w)))) = can_tx (trace w)
      @ replicate k (command_frame (ids ?c ! i) (fst (vals ?c ! i)) (snd (vals ?c ! i)))" "1 \<le> k"
    using p(3) by (auto simp: send_result_def send_block_def CAN_SEND_ATTEMPTS_def split: if_splits)
  then show ?thesis using abort_after_deadline[OF pc dl] by auto
qed

theorem abort_missed_after_deadline_witness:
  "\<exists>k \<ge> 1. can_tx (trace (run sample_env 2 (waiting_world (WPoll 0 615) True))) =
     replicate k (command_frame 0x702 (fst (vals sample_fire ! 0)) (snd (vals sample_fire ! 0)))"
  using abort_missed_after_deadline[of "waiting_world (WPoll 0 615) True" _ 0 615 sample_env]
  by (simp add: waiting_world_def sample_simps monotonic_ms_def sample_fire_simps)

text \<open>C13.  No block is sent before its deadline.  When the thread reaches block \<open>i\<close>, its deadline is ten
  seconds later for the first block (at once for the drowning sequence) and the wait time of the preceding
  block later otherwise.  However the steps of the thread interleave with those of other threads, a step
  of the thread that puts a frame on the bus is preceded by one in which the thread read a time at or after
  this deadline.\<close>

theorem block_deadlines:
  assumes "worker w = Some \<lparr>wargs = args, wpc = WBlock i\<rparr>" and "i < num_blocks (arg_config args)"
    and "deadline = fst (monotonic_ms e w) +
      (if i = 0 then (if drown_injector (arg_config args) then 0 else 10000)
       else ucast (wait_times_ms (arg_config args) ! (i - 1)))"
    and "vs = visited e acts (worker_step e w)" and "\<forall>f. Some f \<in> set acts \<longrightarrow> leaves_worker f"
  shows "map_option wpc (worker (worker_step e w)) = Some (WPoll i deadline) \<and>
    (\<forall>k < length acts. acts ! k = None \<and> can_tx (trace (vs ! Suc k)) \<noteq> can_tx (trace (vs ! k)) \<longrightarrow>
       (\<exists>m < k. acts ! m = None \<and> worker (vs ! m) = Some \<lparr>wargs = args, wpc = WPoll i deadline\<rparr> \<and>
          deadline \<le> fst (monotonic_ms e (vs ! m))))"
proof -
  have twice: "ucast (ucast (x :: u16) :: u32) = (ucast x :: u64)" for x
    using unsigned_less[of x, where 'a = nat]
    by (simp add: word_unat_eq_iff unsigned_ucast_eq unsigned_take_bit_eq take_bit_nat_eq_self)
  have "at_pc args (WBlock i) w" using assms(1) by (simp add: at_pc_def)
  from step_block(1)[OF this assms(2), of e] have poll: "at_pc args (WPoll i deadline) (worker_step e w)"
    using assms(3) by (simp add: monotonic_reading block_delay_def FIRING_SEQUENCE_TMINUS_MS_def twice split: if_splits)
  then have "waiting args i deadline (worker_step e w)" by (simp add: waiting_def)
  from waiting_sends_late[OF this assms(5), of _ e] poll show ?thesis
    by (simp add: assms(4) at_pc_def monotonic_reading)
qed

theorem block_deadlines_witness:
  "map_option wpc (worker (worker_step sample_env (waiting_world (WBlock 0) False))) = Some (WPoll 0 10615)"
  using block_deadlines[of "waiting_world (WBlock 0) False"
    "\<lparr>arg_client = 1, arg_config = sample_fire, started_message = [], completed_message = [], failed_message = []\<rparr>"
    0 _ sample_env _ "[None, Some firing_sequence_request_abort]", OF _ _ refl refl]
  by (simp add: waiting_world_def sample_simps sample_fire_simps monotonic_ms_def leaves_worker_def firing_sequence_request_abort_def)
    (simp add: sample_fire_def store_block_def zero_config_def)

end
