(* ===== verification/Command.thy ===== *)
theory Command
  imports Firing
begin

text \<open>
  The text commands, \<^verbatim>\<open>src/control/command.c\<close>.  A handler returns whether it took the command and
  the new world, as the C functions return \<^verbatim>\<open>bool\<close> and work by side effect;
  \<open>command_handle_text\<close> tries them in the order of the source.
\<close>

section \<open>Replies\<close>

definition send_reply :: "env \<Rightarrow> client \<Rightarrow> string \<Rightarrow> world \<Rightarrow> world" where
  "send_reply e c msg w = ws_bridge_send_text e c msg w"

definition send_replyf :: "env \<Rightarrow> client \<Rightarrow> string \<Rightarrow> world \<Rightarrow> world" where
  "send_replyf e c msg w = send_reply e c (trunc_buf 512 msg) w"

definition strip_can_prefix :: "string \<Rightarrow> string" where
  "strip_can_prefix text = (if starts_with ''CAN1|'' text then drop 5 text else text)"

section \<open>Live handlers\<close>

definition set_write_only :: "nat \<Rightarrow> bool \<Rightarrow> world \<Rightarrow> world" where
  "set_write_only p b w = w\<lparr>app := (app w)\<lparr>clients :=
     map (\<lambda>x. if ctx_addr x = p then x\<lparr>write_only := b\<rparr> else x) (clients (app w))\<rparr>\<rparr>"

definition handle_read_toggle :: "env \<Rightarrow> client \<Rightarrow> string \<Rightarrow> world \<Rightarrow> bool \<times> world" where
  "handle_read_toggle e c text w =
     (case ws_user_data e (trace w) c of
        None \<Rightarrow> (False, w)
      | Some ctx \<Rightarrow>
          if text = ''READ-DISABLE''
          then (True, send_reply e c ''Write-only mode enabled'' (set_write_only ctx True w))
          else if text = ''READ-ENABLE''
          then (True, send_reply e c ''Write-only mode disabled'' (set_write_only ctx False w))
          else (False, w))"

text \<open>The fields of a raw CAN command; the last component says whether a duration was given.\<close>

definition parse_raw_can_fields :: "string \<Rightarrow> (u32 \<times> u16 \<times> u16 \<times> bool) option" where
  "parse_raw_can_fields text =
     (case sscanf [Hex, Lit CHR ''#'', Hex, Lit CHR ''#'', Dec] text of
        [Num i, Num v, Num d] \<Rightarrow> Some (of_nat i, of_nat v, of_nat d, True)
      | _ \<Rightarrow>
          (case sscanf [Hex, Lit CHR ''#'', Hex] text of
             [Num i, Num v] \<Rightarrow> Some (of_nat i, of_nat v, 0, False)
           | _ \<Rightarrow> None))"

definition handle_state_command :: "env \<Rightarrow> client \<Rightarrow> string \<Rightarrow> world \<Rightarrow> bool \<times> world" where
  "handle_state_command e c text w =
     (if \<not> starts_with ''STATE#'' text then (False, w)
      else
        let requested = drop 6 text in
        if requested = ''PRECHILLING'' then
          (case app_state_set e APP_STATE_PRECHILLING w of (changed, w1) \<Rightarrow>
             (True, send_reply e c (if changed then ''State set to PRECHILLING''
                                    else ''State set to PRECHILLING (unchanged)'') w1))
        else if requested = ''HOTFIRE'' then
          (case app_state_set e APP_STATE_HOTFIRE w of (changed, w1) \<Rightarrow>
             (True, send_reply e c (if changed then ''State set to HOTFIRE''
                                    else ''State set to HOTFIRE (unchanged)'') w1))
        else (True, send_reply e c ''Unknown state requested'' w))"

definition scan_valve :: "string \<Rightarrow> (string \<times> u32) option" where
  "scan_valve text =
     (case sscanf [Lit CHR ''#'', NotChar 31 CHR ''#'', Lit CHR ''#'', Hex] (drop 9 text) of
        [Str name, Num v] \<Rightarrow> Some (name, of_nat v) | _ \<Rightarrow> None)"

definition set_valve :: "(valve_profile \<Rightarrow> valve_profile) \<Rightarrow> world \<Rightarrow> world" where
  "set_valve f w = w\<lparr>app := (app w)\<lparr>valve := f (valve (app w))\<rparr>\<rparr>"

definition handle_set_valve :: "env \<Rightarrow> client \<Rightarrow> string \<Rightarrow> world \<Rightarrow> bool \<times> world" where
  "handle_set_valve e c text w =
     (if \<not> starts_with ''SET_VALVE'' text then (False, w)
      else case scan_valve text of
          None \<Rightarrow> (True, send_reply e c ''Error setting valve id'' w)
        | Some (name, val) \<Rightarrow>
            let invalid = (True, send_reply e c ''Invalid valve id or value'' w);
                done = (\<lambda>f. (True, send_reply e c ''Valve set successfully'' (set_valve f w)))
            in if name = ''LOX_MAIN'' then
                 if val > 0x7FF then invalid else done (\<lambda>p. p\<lparr>lox_main_valve_id := val\<rparr>)
               else if name = ''LOX_VENT'' then
                 if val > 0x7FF then invalid else done (\<lambda>p. p\<lparr>lox_vent_valve_id := val\<rparr>)
               else if name = ''LOX_MAIN_ANGLE_OPEN'' then
                 if val > 0x0B4 then invalid else done (\<lambda>p. p\<lparr>lox_main_angle_open := ucast val\<rparr>)
               else if name = ''LOX_VENT_ANGLE_CLOSE'' then
                 if val > 0x0B4 then invalid else done (\<lambda>p. p\<lparr>lox_vent_angle_close := ucast val\<rparr>)
               else invalid)"

definition handle_drown :: "env \<Rightarrow> client \<Rightarrow> string \<Rightarrow> world \<Rightarrow> bool \<times> world" where
  "handle_drown e c text w =
     (if text \<noteq> ''DROWN#8765'' then (False, w)
      else case firing_sequence_start_drown e c w of (rc, w1) \<Rightarrow>
        (True, if rc \<noteq> 0 then send_reply e c ''Error drowning injector'' w1 else w1))"

definition handle_abort :: "env \<Rightarrow> client \<Rightarrow> string \<Rightarrow> world \<Rightarrow> bool \<times> world" where
  "handle_abort e c text w =
     (if text \<noteq> ''ABORT#8765'' then (False, w)
      else (True, send_reply e c ''Abort requested''
                    (wiggle_stop_all e True (firing_sequence_request_abort w))))"

text \<open>The repeated \<^verbatim>\<open>snprintf\<close> into one buffer: \<open>len\<close> counts the bytes that would have been
  written, and the loop stops when it reaches the capacity.\<close>

fun append_loop :: "nat \<Rightarrow> string list \<Rightarrow> string \<Rightarrow> nat \<Rightarrow> string \<times> nat" where
  "append_loop cap [] buf len = (buf, len)"
| "append_loop cap (t # ts) buf len =
     (if 0 < len \<and> len < cap
      then append_loop cap ts (take len buf @ trunc_buf (cap - len) t) (len + length t)
      else (buf, len))"

definition block_summary :: "string \<Rightarrow> firing_sequence_config \<Rightarrow> string list" where
  "block_summary first cfg =
     map (\<lambda>i. (if i = 0 then first else '', '') @ show_03x (ids cfg ! i) @ ''#''
            @ show_04x (fst (vals cfg ! i)) @ ''#'' @ show_u (unat (snd (vals cfg ! i))))
       [0..<num_blocks cfg]"

definition fire_started_text :: "firing_sequence_config \<Rightarrow> string" where
  "fire_started_text cfg =
     (let intro = ''Firing sequence started with '' @ show_u (num_blocks cfg) @ '' blocks''
      in fst (append_loop 256 (block_summary '': '' cfg) (trunc_buf 256 intro) (length intro)))"

definition handle_fire :: "env \<Rightarrow> client \<Rightarrow> string \<Rightarrow> world \<Rightarrow> bool \<times> world" where
  "handle_fire e c text w =
     (if \<not> starts_with ''FIRE#8765'' text then (False, w)
      else case firing_sequence_parse e text w of
          (None, w1) \<Rightarrow> (True, send_reply e c ''Error parsing command'' w1)
        | (Some cfg, w1) \<Rightarrow>
            (case firing_sequence_start e c cfg (fire_started_text cfg) ''Firing sequence completed''
                    ''Firing sequence failed to start'' w1 of (rc, w2) \<Rightarrow>
               (True, if rc \<noteq> 0 then send_reply e c ''A firing sequence is already running'' w2 else w2)))"

text \<open>The loop of \<^verbatim>\<open>WIGGLE_STOP\<close>: whether a token failed to parse, how many wiggles stopped.\<close>

fun wiggle_stop_loop :: "env \<Rightarrow> string list \<Rightarrow> nat \<Rightarrow> world \<Rightarrow> bool \<times> nat \<times> world" where
  "wiggle_stop_loop e [] stopped w = (False, stopped, w)"
| "wiggle_stop_loop e (t # ts) stopped w =
     (case sscanf [Hex] t of
        [Num i] \<Rightarrow>
          (case wiggle_stop e (of_nat i) w of (did, w1) \<Rightarrow>
             wiggle_stop_loop e ts (if did then Suc stopped else stopped) w1)
      | _ \<Rightarrow> (True, stopped, w))"

definition handle_wiggle_stop :: "env \<Rightarrow> client \<Rightarrow> string \<Rightarrow> world \<Rightarrow> bool \<times> world" where
  "handle_wiggle_stop e c command w =
     (if \<not> starts_with ''WIGGLE_STOP'' command then (False, w)
      else case wiggle_stop_loop e (tl (strtok_all CHR ''|'' command)) 0 w of (parse_error, stopped, w1) \<Rightarrow>
        (True, if parse_error then send_reply e c ''WIGGLE_STOP failed: invalid format'' w1
               else if stopped = 0 then send_reply e c ''WIGGLE_STOP: no active wiggles for requested IDs'' w1
               else send_reply e c (trunc_buf 96 (''Stopped wiggle for '' @ show_u stopped @ '' sensor(s)'')) w1))"

definition scan_wiggle :: "string \<Rightarrow> (u32 \<times> u16 \<times> u16 \<times> u16 \<times> u32 \<times> u32) option" where
  "scan_wiggle token =
     (case sscanf [Hex, Lit CHR ''#'', Hex, Lit CHR ''#'', Hex, Lit CHR ''#'', Hex, Lit CHR ''#'',
                   Dec, Lit CHR ''#'', Dec] token of
        [Num i, Num sv, Num ev, Num xv, Num p] \<Rightarrow>
          Some (of_nat i, of_nat sv, of_nat ev, of_nat xv, of_nat p, 0)
      | [Num i, Num sv, Num ev, Num xv, Num p, Num d] \<Rightarrow>
          Some (of_nat i, of_nat sv, of_nat ev, of_nat xv, of_nat p, of_nat d)
      | _ \<Rightarrow> None)"

fun wiggle_loop :: "env \<Rightarrow> string list \<Rightarrow> nat \<Rightarrow> world \<Rightarrow> bool \<times> nat \<times> world" where
  "wiggle_loop e [] started w = (False, started, w)"
| "wiggle_loop e (t # ts) started w =
     (case scan_wiggle t of
        None \<Rightarrow> (True, started, w)
      | Some (i, sv, ev, xv, p, d) \<Rightarrow>
          (case wiggle_start e i sv ev xv p d w of (rc, w1) \<Rightarrow>
             if rc \<noteq> 0 then (True, started, w1) else wiggle_loop e ts (Suc started) w1))"

definition handle_wiggle :: "env \<Rightarrow> client \<Rightarrow> string \<Rightarrow> world \<Rightarrow> bool \<times> world" where
  "handle_wiggle e c command w =
     (if \<not> starts_with ''WIGGLE'' command \<or> starts_with ''WIGGLE_STOP'' command then (False, w)
      else if app_state_get w \<noteq> APP_STATE_PRECHILLING
      then (True, send_reply e c ''WIGGLE rejected: system not in PRECHILLING'' w)
      else case wiggle_loop e (tl (strtok_all CHR ''|'' command)) 0 w of (parse_error, started, w1) \<Rightarrow>
        (True, if parse_error \<or> started = 0
               then send_reply e c ''WIGGLE failed: invalid format or no available slots'' w1
               else send_reply e c (trunc_buf 96 (''WIGGLE started for '' @ show_u started @ '' sensor(s)'')) w1))"

definition handle_raw_can :: "env \<Rightarrow> client \<Rightarrow> string \<Rightarrow> world \<Rightarrow> bool \<times> world" where
  "handle_raw_can e c text w =
     (case parse_raw_can_fields text of
        None \<Rightarrow> (False, w)
      | Some (i, v, d, has_duration) \<Rightarrow>
          (case can_bus_send_command e (can_fd (app w)) i v d w of (rc, w1) \<Rightarrow>
             (True,
              if rc = 0 then
                send_reply e c ''Message sent''
                  (logger_printf e ''CAN_TX''
                     (show_03x i @ ''#'' @ show_04x v @ (if has_duration then ''#'' @ show_u (unat d) else '''')) w1)
              else send_reply e c (trunc_buf 128 (''Error sending message: '' @ strerror e (errno w1))) w1)))"

section \<open>Testing mode\<close>

definition handle_testing_state :: "env \<Rightarrow> client \<Rightarrow> string \<Rightarrow> world \<Rightarrow> bool \<times> world" where
  "handle_testing_state e c text w =
     (if \<not> starts_with ''STATE#'' text then (False, w)
      else
        let requested = drop 6 text in
        if requested = ''PRECHILLING''
        then (True, send_reply e c ''TESTING parsed STATE command: PRECHILLING'' w)
        else if requested = ''HOTFIRE''
        then (True, send_reply e c ''TESTING parsed STATE command: HOTFIRE'' w)
        else (True, send_reply e c ''TESTING parse error: unknown STATE value'' w))"

definition handle_testing_set_valve :: "env \<Rightarrow> client \<Rightarrow> string \<Rightarrow> world \<Rightarrow> bool \<times> world" where
  "handle_testing_set_valve e c text w =
     (if \<not> starts_with ''SET_VALVE'' text then (False, w)
      else case scan_valve text of
          None \<Rightarrow> (True, send_reply e c ''TESTING parse error: SET_VALVE format'' w)
        | Some (name, val) \<Rightarrow>
            if name = ''LOX_MAIN'' \<or> name = ''LOX_VENT'' then
              if val > 0x7FF then (True, send_reply e c ''TESTING parse error: valve CAN id out of range'' w)
              else (True, send_replyf e c (''TESTING parsed SET_VALVE: '' @ name @ ''='' @ show_03x0 val) w)
            else if name = ''LOX_MAIN_ANGLE_OPEN'' \<or> name = ''LOX_VENT_ANGLE_CLOSE'' then
              if val > 0x0B4 then (True, send_reply e c ''TESTING parse error: valve angle out of range'' w)
              else (True, send_replyf e c (''TESTING parsed SET_VALVE: '' @ name @ ''='' @ show_03x0 val) w)
            else (True, send_reply e c ''TESTING parse error: unknown SET_VALVE field'' w))"

fun testing_stop_loop :: "string list \<Rightarrow> nat \<Rightarrow> bool \<times> nat" where
  "testing_stop_loop [] n = (False, n)"
| "testing_stop_loop (t # ts) n =
     (case sscanf [Hex] t of [Num i] \<Rightarrow> testing_stop_loop ts (Suc n) | _ \<Rightarrow> (True, n))"

definition handle_testing_wiggle_stop :: "env \<Rightarrow> client \<Rightarrow> string \<Rightarrow> world \<Rightarrow> bool \<times> world" where
  "handle_testing_wiggle_stop e c command w =
     (if \<not> starts_with ''WIGGLE_STOP'' command then (False, w)
      else case testing_stop_loop (tl (strtok_all CHR ''|'' command)) 0 of (parse_error, n) \<Rightarrow>
        (True, if parse_error \<or> n = 0 then send_reply e c ''TESTING parse error: WIGGLE_STOP format'' w
               else send_replyf e c (''TESTING parsed WIGGLE_STOP: '' @ show_u n @ '' id(s)'') w))"

fun testing_wiggle_loop :: "string list \<Rightarrow> nat \<Rightarrow> bool \<times> nat" where
  "testing_wiggle_loop [] n = (False, n)"
| "testing_wiggle_loop (t # ts) n =
     (case scan_wiggle t of
        None \<Rightarrow> (True, n)
      | Some (i, sv, ev, xv, p, d) \<Rightarrow>
          if i > 0x7FF \<or> p = 0 then (True, n) else testing_wiggle_loop ts (Suc n))"

definition handle_testing_wiggle :: "env \<Rightarrow> client \<Rightarrow> string \<Rightarrow> world \<Rightarrow> bool \<times> world" where
  "handle_testing_wiggle e c command w =
     (if \<not> starts_with ''WIGGLE'' command \<or> starts_with ''WIGGLE_STOP'' command then (False, w)
      else case testing_wiggle_loop (tl (strtok_all CHR ''|'' command)) 0 of (parse_error, n) \<Rightarrow>
        (True, if parse_error \<or> n = 0 then send_reply e c ''TESTING parse error: WIGGLE format'' w
               else send_replyf e c (''TESTING parsed WIGGLE: '' @ show_u n @ '' block(s)'') w))"

definition fire_testing_text :: "firing_sequence_config \<Rightarrow> string" where
  "fire_testing_text cfg =
     (let intro = ''TESTING parsed FIRE: '' @ show_u (num_blocks cfg) @ '' block(s)''
      in case append_loop 512 (block_summary '' ('' cfg) (trunc_buf 512 intro) (length intro) of (buf, len) \<Rightarrow>
        fst (append_loop 512 ['')''] buf len))"

definition handle_testing_fire :: "env \<Rightarrow> client \<Rightarrow> string \<Rightarrow> world \<Rightarrow> bool \<times> world" where
  "handle_testing_fire e c text w =
     (if \<not> starts_with ''FIRE#8765'' text then (False, w)
      else case firing_sequence_parse e text w of
          (None, w1) \<Rightarrow> (True, send_reply e c ''TESTING parse error: FIRE format'' w1)
        | (Some cfg, w1) \<Rightarrow> (True, send_reply e c (fire_testing_text cfg) w1))"

definition handle_testing_drown :: "env \<Rightarrow> client \<Rightarrow> string \<Rightarrow> world \<Rightarrow> bool \<times> world" where
  "handle_testing_drown e c text w =
     (if text \<noteq> ''DROWN#8765'' then (False, w)
      else (True, send_reply e c ''TESTING parsed DROWN command'' w))"

definition handle_testing_abort :: "env \<Rightarrow> client \<Rightarrow> string \<Rightarrow> world \<Rightarrow> bool \<times> world" where
  "handle_testing_abort e c text w =
     (if text \<noteq> ''ABORT#8765'' then (False, w)
      else (True, send_reply e c ''TESTING parsed ABORT command'' w))"

definition handle_testing_raw_can :: "env \<Rightarrow> client \<Rightarrow> string \<Rightarrow> world \<Rightarrow> bool \<times> world" where
  "handle_testing_raw_can e c text w =
     (case parse_raw_can_fields text of
        None \<Rightarrow> (False, w)
      | Some (i, v, d, has_duration) \<Rightarrow>
          if i > 0x7FF then (True, send_reply e c ''TESTING parse error: CAN id out of range'' w)
          else (True, send_replyf e c
            (''TESTING parsed RAW CAN: id='' @ show_03x0 i @ '' value='' @ show_04x0 v
             @ (if has_duration then '' duration='' @ show_u (unat d) else '''')) w))"

section \<open>Dispatch\<close>

definition or_else :: "(world \<Rightarrow> bool \<times> world) \<Rightarrow> (world \<Rightarrow> world) \<Rightarrow> world \<Rightarrow> world" where
  "or_else h k w = (case h w of (took, w1) \<Rightarrow> if took then w1 else k w1)"
  \<comment> \<open>\<^verbatim>\<open>if (h(...)) return; k\<close>\<close>

definition with_copy :: "env \<Rightarrow> client \<Rightarrow> (world \<Rightarrow> world) \<Rightarrow> world \<Rightarrow> world" where
  "with_copy e c k w =
     (let ok = alloc_ok e (trace w); w1 = log_event (EvAlloc ok) w
      in if \<not> ok then send_reply e c ''Server error: out of memory'' w1 else k w1)"
  \<comment> \<open>\<^verbatim>\<open>strdup\<close> and its failure branch\<close>

definition handle_testing_command :: "env \<Rightarrow> client \<Rightarrow> string \<Rightarrow> world \<Rightarrow> world" where
  "handle_testing_command e c s =
     or_else (handle_testing_abort e c s)
     (or_else (handle_testing_state e c s)
     (or_else (handle_testing_set_valve e c s)
     (with_copy e c
     (or_else (handle_testing_wiggle_stop e c s)
     (or_else (handle_testing_wiggle e c s)
     (or_else (handle_testing_drown e c s)
     (or_else (handle_testing_fire e c s)
     (or_else (handle_testing_raw_can e c s)
     (send_reply e c ''TESTING invalid command'')))))))))"

definition handle_operational :: "env \<Rightarrow> client \<Rightarrow> string \<Rightarrow> world \<Rightarrow> world" where
  "handle_operational e c s w =
     (if app_state_get w = APP_STATE_PRECHILLING
      then send_reply e c ''System is in PRE-HOTFIRE state; command ignored.'' w
      else
        or_else (handle_drown e c s)
        (or_else (handle_fire e c s)
        (or_else (handle_raw_can e c s)
        (send_reply e c ''Invalid command''))) w)"

definition handle_live_command :: "env \<Rightarrow> client \<Rightarrow> string \<Rightarrow> world \<Rightarrow> world" where
  "handle_live_command e c s =
     or_else (handle_abort e c s)
     (or_else (handle_state_command e c s)
     (or_else (handle_set_valve e c s)
     (with_copy e c
     (or_else (handle_wiggle_stop e c s)
     (or_else (handle_wiggle e c s)
     (handle_operational e c s))))))"

definition command_handle_text :: "env \<Rightarrow> client \<Rightarrow> string \<Rightarrow> world \<Rightarrow> world" where
  "command_handle_text e c text =
     or_else (handle_read_toggle e c text)
       (\<lambda>w. let s = strip_can_prefix text in
          if testing_mode (config (app w)) then handle_testing_command e c s w
          else if read_only (config (app w))
          then send_reply e c ''The client is not allowed to execute commands'' w
          else handle_live_command e c s w)"

end
