(* ===== verification/ControlInv.thy ===== *)
theory ControlInv
  imports Command
begin

text \<open>
  The invariant of the control state and the contract every command handler keeps: a handler that
  declines a command leaves the world untouched, and one that takes it preserves the invariant.
  The dispatcher inherits both from the contract.
\<close>

section \<open>The invariant\<close>

definition frames_ok :: "world \<Rightarrow> bool" where
  "frames_ok w \<longleftrightarrow> list_all valid_frame (can_tx (trace w))"

text \<open>In HOTFIRE no wiggle is active.\<close>

definition hotfire_still :: "app_context \<Rightarrow> bool" where
  "hotfire_still a \<longleftrightarrow> (state a = APP_STATE_HOTFIRE \<longrightarrow> (\<forall>s \<in> set (wiggles a). \<not> active s))"

text \<open>The flag \<open>sequence_active\<close> is set exactly while the one firing thread lives, and that thread
  has a well-formed configuration.\<close>

definition sequence_ok :: "world \<Rightarrow> bool" where
  "sequence_ok w \<longleftrightarrow> (sequence_active (app w) \<longleftrightarrow> worker w \<noteq> None) \<and>
     (\<forall>k. worker w = Some k \<longrightarrow> config_ok (arg_config (wargs k)))"

definition control_inv :: "world \<Rightarrow> bool" where
  "control_inv w \<longleftrightarrow> wiggles_ok (wiggles (app w)) \<and> hotfire_still (app w) \<and> valve_ok (valve (app w)) \<and>
     can_tables_ok (app w) \<and> sequence_ok w \<and> frames_ok w"

lemma control_invD:
  assumes "control_inv w"
  shows "wiggles_ok (wiggles (app w))" "hotfire_still (app w)" "valve_ok (valve (app w))"
    "can_tables_ok (app w)" "sequence_ok w" "frames_ok w"
  using assms by (simp_all add: control_inv_def)

lemma control_inv_silent: "silent_can w w' \<Longrightarrow> control_inv w \<Longrightarrow> control_inv w'"
  by (simp add: control_inv_def silent_can_def sequence_ok_def frames_ok_def)

lemma control_inv_quiet: "quiet w w' \<Longrightarrow> control_inv w \<Longrightarrow> control_inv w'"
  by (rule control_inv_silent [OF quiet_silent])

text \<open>An operation that changes only the wiggle table.\<close>

lemma control_inv_wiggles:
  assumes "control_inv w" and "app w' = (app w)\<lparr>wiggles := t\<rparr>" and "wiggles_ok t"
    and "worker w' = worker w" and "frames_ok w'"
    and "state (app w) = APP_STATE_HOTFIRE \<Longrightarrow> \<forall>s \<in> set t. \<not> active s"
  shows "control_inv w'"
  using assms by (simp add: control_inv_def hotfire_still_def can_tables_ok_def sequence_ok_def)

section \<open>Frames stay valid\<close>

lemma frames_silent: "silent_can w w' \<Longrightarrow> frames_ok w \<Longrightarrow> frames_ok w'"
  by (simp add: frames_ok_def silent_can_def)

lemma frames_send_value: "frames_ok w \<Longrightarrow> frames_ok (send_value e k v w)"
  by (auto simp: frames_ok_def tx_simps)

lemma frames_set_slot [simp]: "frames_ok (set_slot k s w) = frames_ok w"
  by (simp add: frames_ok_def)

lemma frames_deactivate: "frames_ok w \<Longrightarrow> frames_ok (deactivate_slot e k b w)"
  by (auto simp: frames_ok_def tx_simps)

lemma frames_stop_all_loop: "frames_ok w \<Longrightarrow> frames_ok (snd (stop_all_loop e b ks n w))"
  by (induction ks arbitrary: n w) (auto intro: frames_deactivate)

lemma frames_stop_all: "frames_ok w \<Longrightarrow> frames_ok (wiggle_stop_all e b w)"
  by (auto simp: wiggle_stop_all_def case_prod_beta
      intro: frames_stop_all_loop frames_silent [OF silent_broadcast])

lemma frames_process_slot: "frames_ok w \<Longrightarrow> frames_ok (process_slot e now k w)"
  by (auto simp: process_slot_def Let_def intro: frames_deactivate frames_send_value)

lemma frames_process_loop: "frames_ok w \<Longrightarrow> frames_ok (process_loop e now ks w)"
  by (induction ks arbitrary: w) (auto intro: frames_process_slot)

lemma frames_process: "frames_ok w \<Longrightarrow> frames_ok (wiggle_process e w)"
  by (auto simp: wiggle_process_def case_prod_beta
      intro: frames_process_loop frames_silent [OF quiet_silent [OF quiet_monotonic]])

lemma frames_start: "frames_ok w \<Longrightarrow> frames_ok (snd (wiggle_start e i sv ev xv p d w))"
proof -
  have "fst (wiggle_start e i sv ev xv p d w) = 0 \<Longrightarrow> i \<le> 0x7FF"
    by (auto simp: wiggle_start_def split: if_splits)
  then show "frames_ok w \<Longrightarrow> frames_ok (snd (wiggle_start e i sv ev xv p d w))"
    by (auto simp: frames_ok_def wiggle_start_tx)
qed

lemma frames_stop: "frames_ok w \<Longrightarrow> frames_ok (snd (wiggle_stop e i w))"
  by (auto simp: wiggle_stop_def split: option.splits intro: frames_deactivate)

lemma frames_send_command: "frames_ok w \<Longrightarrow> frames_ok (snd (can_bus_send_command e fd i v d w))"
  by (simp add: frames_ok_def send_command_valid)

lemma frames_send_attempts: "frames_ok w \<Longrightarrow> frames_ok (snd (send_attempts e n i v d w))"
proof (induction n arbitrary: w)
  case 0
  then show ?case by simp
next
  case (Suc n)
  then show ?case
    by (auto simp: case_prod_beta
        intro: frames_send_command frames_silent [OF quiet_silent [OF quiet_logger_printf]])
qed

section \<open>Operations keep the invariant\<close>

lemma inv_wiggle_process: "control_inv w \<Longrightarrow> control_inv (wiggle_process e w)"
proof -
  assume inv: "control_inv w"
  note d = control_invD[OF inv]
  show ?thesis
  proof (cases "state (app w)")
    case APP_STATE_HOTFIRE
    then show ?thesis using inv by (simp add: wiggle_process_hotfire)
  next
    case APP_STATE_PRECHILLING
    then show ?thesis
      using control_inv_wiggles[OF inv wiggle_process_ok(2)[OF d(1)] wiggle_process_ok(1)[OF d(1)]]
        frames_process[OF d(6)] by simp
  qed
qed

lemma inv_stop_all: "control_inv w \<Longrightarrow> control_inv (wiggle_stop_all e b w)"
proof -
  assume inv: "control_inv w"
  note d = control_invD[OF inv]
  show ?thesis
    by (rule control_inv_wiggles [OF inv wiggle_stop_all_ok [OF d(1)] wiggles_ok_init])
      (simp_all add: frames_stop_all [OF d(6)])
qed

lemma inv_wiggle_start:
  "control_inv w \<Longrightarrow> state (app w) = APP_STATE_PRECHILLING \<Longrightarrow>
   control_inv (snd (wiggle_start e i sv ev xv p d w))"
proof -
  assume inv: "control_inv w" and pre: "state (app w) = APP_STATE_PRECHILLING"
  note d = control_invD[OF inv]
  show ?thesis
    using control_inv_wiggles[OF inv wiggle_start_ok(2)[OF d(1)] wiggle_start_ok(1)[OF d(1)]]
      frames_start[OF d(6)] pre by simp
qed

lemma table_del_inactive:
  "\<forall>s \<in> set t. \<not> active s \<Longrightarrow> \<forall>s \<in> set (table_del i t). \<not> active s"
  by (auto simp: table_del_def split: option.splits dest: set_update_subset)

lemma inv_wiggle_stop: "control_inv w \<Longrightarrow> control_inv (snd (wiggle_stop e i w))"
proof -
  assume inv: "control_inv w"
  note d = control_invD[OF inv]
  show ?thesis
    using d(2) table_del_inactive[of "wiggles (app w)" i]
    by (intro control_inv_wiggles [OF inv wiggle_stop_app(1) wt.invar_del [OF d(1)]])
      (simp_all add: frames_stop [OF d(6)] hotfire_still_def)
qed

lemma inv_state_set: "control_inv w \<Longrightarrow> control_inv (snd (app_state_set e s w))"
proof -
  assume inv: "control_inv w"
  note d = control_invD[OF inv]
  have "frames_ok (w\<lparr>app := (app w)\<lparr>state := s\<rparr>\<rparr>)" using d(6) by (simp add: frames_ok_def)
  then have "frames_ok (snd (app_state_set e s w))"
    by (auto simp: app_state_set_def Let_def intro: frames_stop_all frames_silent [OF silent_state_broadcast])
  then show ?thesis
    using d by (cases s)
      (auto simp: control_inv_def app_state_set_app hotfire_still_def wiggles_ok_init can_tables_ok_def sequence_ok_def)
qed

lemma inv_request_abort: "control_inv w \<Longrightarrow> control_inv (firing_sequence_request_abort w)"
  by (simp add: firing_sequence_request_abort_def control_inv_def hotfire_still_def can_tables_ok_def
      sequence_ok_def frames_ok_def)

lemma inv_firing_start:
  assumes "control_inv w" and "config_ok cfg"
  shows "control_inv (snd (firing_sequence_start e c cfg sm cm fm w))"
proof -
  obtain rc w' where r: "firing_sequence_start e c cfg sm cm fm w = (rc, w')" by fastforce
  note d = control_invD[OF assms(1)]
  from r show ?thesis
  proof (cases rule: firing_start_cases)
    case refused
    with assms r show ?thesis by simp
  next
    case failed
    with d r show ?thesis
      by (simp add: control_inv_def hotfire_still_def can_tables_ok_def sequence_ok_def frames_ok_def)
  next
    case (started args)
    with d r assms(2) show ?thesis
      by (simp add: control_inv_def hotfire_still_def can_tables_ok_def sequence_ok_def frames_ok_def at_pc_def)
  qed
qed

lemma inv_start_drown: "control_inv w \<Longrightarrow> control_inv (snd (firing_sequence_start_drown e c w))"
  using drown_config_ok[of "valve (app w)"] control_invD(3)[of w]
  by (auto simp: firing_sequence_start_drown_def Let_def intro: inv_firing_start)

lemma inv_worker_step: "control_inv w \<Longrightarrow> control_inv (worker_step e w)"
proof (cases "worker w")
  case None
  then show "control_inv w \<Longrightarrow> control_inv (worker_step e w)" by (simp add: worker_step_def)
next
  case (Some k)
  assume inv: "control_inv w"
  note d = control_invD[OF inv]
  have cfg: "config_ok (arg_config (wargs k))" using d(5) Some by (simp add: sequence_ok_def)
  obtain args pc where k: "k = \<lparr>wargs = args, wpc = pc\<rparr>" by (cases k)
  then have pc: "at_pc args pc w" using Some by (simp add: at_pc_def)
  have keep: "control_inv w'" if "app w' = app w" "at_pc args pc' w'" "frames_ok w'" for w' pc'
    using that d cfg k Some by (auto simp: control_inv_def sequence_ok_def at_pc_def)
  have tx: "frames_ok w'" if "can_tx (trace w') = can_tx (trace w)" for w'
    using that d(6) by (simp add: frames_ok_def)
  show "control_inv (worker_step e w)"
  proof (cases pc)
    case WStart
    with step_start[of args w e] pc show ?thesis
      by (intro keep [of _ "WBlock 0"] tx) (simp_all add: silent_can_def)
  next
    case (WBlock i)
    with step_block[of args i w e] step_block_done[of args i w e] pc show ?thesis
      by (cases "i < num_blocks (arg_config args)") (auto intro: keep tx)
  next
    case (WPoll i dl)
    with pc have "at_pc args (WPoll i dl) w" by simp
    note p = step_poll[OF this, of e]
    show ?thesis by (rule keep [OF p(2) p(1) tx [OF p(3)]])
  next
    case (WCheck i dl)
    with pc have "at_pc args (WCheck i dl) w" by simp
    note p = step_check[OF this, of e]
    show ?thesis by (rule keep [OF p(2) p(1) tx [OF p(3)]])
  next
    case (WSend i)
    have "frames_ok (snd (send_result e (arg_config args) i w))"
      using frames_send_attempts[OF d(6)] by (simp add: send_result_def send_block_def)
    then have "frames_ok (worker_step e w)"
      using step_send(3)[of args i w e] pc WSend by (simp add: frames_ok_def)
    with step_send(1,2)[of args i w e] pc WSend show ?thesis by (auto intro: keep)
  next
    case WFinish
    have "app (worker_step e w) = (app w)\<lparr>sequence_active := False, sequence_abort := False\<rparr>"
      "frames_ok (worker_step e w)" "worker (worker_step e w) = None"
      using pc WFinish d(6) by (simp_all add: at_pc_def worker_step_def finish_sequence_def frames_ok_def)
    with d show ?thesis
      by (simp add: control_inv_def hotfire_still_def can_tables_ok_def sequence_ok_def)
  qed
qed


section \<open>The handler contract\<close>

text \<open>The parts of the context no command touches.\<close>

definition fixed_part ::
  "app_context \<Rightarrow> app_config \<times> bool \<times> (int \<times> int \<times> int) \<times> bool \<times> int list \<times> bool list" where
  "fixed_part a = (config a, stop a, (epoll_fd a, timer_fd a, can_fd a), ws a, can_values a, can_dirty a)"

lemma fixed_part_update [simp]:
  "fixed_part (a\<lparr>wiggles := t\<rparr>) = fixed_part a" "fixed_part (a\<lparr>state := s\<rparr>) = fixed_part a"
  "fixed_part (a\<lparr>valve := v\<rparr>) = fixed_part a" "fixed_part (a\<lparr>clients := cs\<rparr>) = fixed_part a"
  "fixed_part (a\<lparr>sequence_active := b\<rparr>) = fixed_part a" "fixed_part (a\<lparr>sequence_abort := b\<rparr>) = fixed_part a"
  by (simp_all add: fixed_part_def)

text \<open>\<open>safe w w'\<close>: a step from a good world leads to a good world, leaves the fixed parts alone and opens
  and closes nothing.\<close>

definition safe :: "world \<Rightarrow> world \<Rightarrow> bool" where
  "safe w w' \<longleftrightarrow> (control_inv w \<longrightarrow> control_inv w' \<and> fixed_part (app w') = fixed_part (app w) \<and>
     sys_log (trace w') = sys_log (trace w))"

lemma safe_refl [simp, intro]: "safe w w"
  by (simp add: safe_def)

lemma safe_trans [trans]: "safe u v \<Longrightarrow> safe v w \<Longrightarrow> safe u w"
  by (simp add: safe_def)

lemma safe_silent: "silent_can w w' \<Longrightarrow> safe w w'"
  using control_inv_silent[of w w'] by (simp add: safe_def silent_can_def)

lemma safe_quiet: "quiet w w' \<Longrightarrow> safe w w'"
  by (rule safe_silent [OF quiet_silent])

lemma silent_send_reply [simp, intro]: "silent_can w (send_reply e c m w)"
  by (simp add: send_reply_def)

lemma silent_send_replyf [simp, intro]: "silent_can w (send_replyf e c m w)"
  by (simp add: send_replyf_def)

lemmas reply_frame [simp] = silent_canD [OF silent_send_reply] silent_canD [OF silent_send_replyf]

lemma safe_reply [simp, intro]: "safe w w' \<Longrightarrow> safe w (send_reply e c m w')"
  by (rule safe_trans [OF _ safe_silent [OF silent_send_reply]])

locale handler =
  fixes h :: "env \<Rightarrow> client \<Rightarrow> string \<Rightarrow> world \<Rightarrow> bool \<times> world"
  assumes declines: "\<not> fst (h e c s w) \<Longrightarrow> snd (h e c s w) = w"
    and keeps: "safe w (snd (h e c s w))"
begin

lemma or_else_safe: "(\<And>w. safe w (k w)) \<Longrightarrow> safe w (or_else (h e c s) k w)"
  using keeps[of w e c s] by (auto simp: or_else_def case_prod_beta intro: safe_trans)

lemma or_else_taken: "fst (h e c s w) \<Longrightarrow> or_else (h e c s) k w = snd (h e c s w)"
  by (simp add: or_else_def case_prod_beta)

lemma or_else_declined: "\<not> fst (h e c s w) \<Longrightarrow> or_else (h e c s) k w = k w"
  using declines[of e c s w] by (simp add: or_else_def case_prod_beta)

lemma or_else_cases: "P (snd (h e c s w)) \<Longrightarrow> P (k w) \<Longrightarrow> P (or_else (h e c s) k w)"
  by (cases "fst (h e c s w)") (simp_all add: or_else_taken or_else_declined)

end

text \<open>A handler that only replies: it changes no control state and sends no CAN frame.\<close>

locale silent_handler =
  fixes h :: "env \<Rightarrow> client \<Rightarrow> string \<Rightarrow> world \<Rightarrow> bool \<times> world"
  assumes silent_declines: "\<not> fst (h e c s w) \<Longrightarrow> snd (h e c s w) = w"
    and silent: "silent_can w (snd (h e c s w))"
begin

lemma or_else_silent: "(\<And>w. silent_can w (k w)) \<Longrightarrow> silent_can w (or_else (h e c s) k w)"
  using silent[of w e c s] by (auto simp: or_else_def case_prod_beta intro: silent_can_trans)

end

sublocale silent_handler \<subseteq> handler h
  by unfold_locales (auto intro: silent_declines safe_silent silent)

section \<open>Loops over tokens\<close>

lemma safe_wiggle_stop: "safe w (snd (wiggle_stop e i w))"
  using inv_wiggle_stop[of w e i] by (simp add: safe_def wiggle_stop_app)

lemma safe_wiggle_stop_loop: "safe w (snd (snd (wiggle_stop_loop e ts n w)))"
proof (induction ts arbitrary: n w)
  case Nil
  then show ?case by simp
next
  case (Cons t ts)
  then show ?case
    by (auto simp: case_prod_beta split: list.splits scanval.splits intro: safe_trans [OF safe_wiggle_stop])
qed

lemma wiggle_start_keeps_state:
  "control_inv w \<Longrightarrow> state (app (snd (wiggle_start e i sv ev xv p d w))) = state (app w)"
  using wiggle_start_ok(2)[OF control_invD(1)] by (metis app_context.select_convs(8) app_context.surjective app_context.update_convs(9))

lemma safe_wiggle_loop:
  "state (app w) = APP_STATE_PRECHILLING \<Longrightarrow> safe w (snd (snd (wiggle_loop e ts n w)))"
proof (induction ts arbitrary: n w)
  case Nil
  then show ?case by simp
next
  case (Cons t ts)
  have one: "safe w (snd (wiggle_start e i sv ev xv p d w))" for i sv ev xv p d
    using inv_wiggle_start[of w e i sv ev xv p d] Cons.prems wiggle_start_ok(2)[OF control_invD(1)[of w]]
    by (auto simp: safe_def) (metis fixed_part_update(1))
  have next_ok: "safe w (snd (snd (wiggle_loop e ts m (snd (wiggle_start e i sv ev xv p d w)))))"
    for i sv ev xv p d m
  proof (cases "control_inv w")
    case True
    then show ?thesis
      using Cons.IH[of "snd (wiggle_start e i sv ev xv p d w)" m] Cons.prems
      by (intro safe_trans [OF one]) (simp add: wiggle_start_keeps_state)
  next
    case False
    then show ?thesis by (simp add: safe_def)
  qed
  show ?case using one next_ok by (auto simp: case_prod_beta split: option.splits)
qed

section \<open>Every handler keeps the contract\<close>

lemma safe_write_only: "safe w (set_write_only p b w)"
  by (simp add: safe_def set_write_only_def control_inv_def hotfire_still_def can_tables_ok_def
      sequence_ok_def frames_ok_def)

interpretation read_toggle: handler handle_read_toggle
  by unfold_locales
    (auto simp: handle_read_toggle_def safe_write_only split: option.splits)

lemma safe_state_set: "safe w (snd (app_state_set e s w))"
  using inv_state_set[of w e s] by (simp add: safe_def app_state_set_app control_invD)

interpretation state_command: handler handle_state_command
  by unfold_locales
    (auto simp: handle_state_command_def Let_def case_prod_beta safe_state_set)

lemma ucast_le_angle: "(v :: u32) \<le> 0xB4 \<Longrightarrow> (ucast v :: u16) \<le> 0xB4"
  by (simp add: word_le_nat_alt unsigned_ucast_eq take_bit_nat_eq_self)

lemma safe_set_valve: "(\<And>v. valve_ok v \<Longrightarrow> valve_ok (f v)) \<Longrightarrow> safe w (set_valve f w)"
  by (simp add: safe_def set_valve_def control_inv_def hotfire_still_def can_tables_ok_def
      sequence_ok_def frames_ok_def)

lemma safe_valve_fields:
  "v \<le> 0x7FF \<Longrightarrow> safe w (set_valve (\<lambda>p. p\<lparr>lox_main_valve_id := v\<rparr>) w)"
  "v \<le> 0x7FF \<Longrightarrow> safe w (set_valve (\<lambda>p. p\<lparr>lox_vent_valve_id := v\<rparr>) w)"
  "v \<le> 0xB4 \<Longrightarrow> safe w (set_valve (\<lambda>p. p\<lparr>lox_main_angle_open := ucast v\<rparr>) w)"
  "v \<le> 0xB4 \<Longrightarrow> safe w (set_valve (\<lambda>p. p\<lparr>lox_vent_angle_close := ucast v\<rparr>) w)"
  by (rule safe_set_valve; simp add: valve_ok_def ucast_le_angle)+

lemma safe_handle_set_valve: "safe w (snd (handle_set_valve e c s w))"
  by (simp add: handle_set_valve_def Let_def not_less safe_valve_fields split: option.splits prod.splits)

lemma set_valve_takes: "fst (handle_set_valve e c s w) \<longleftrightarrow> starts_with ''SET_VALVE'' s"
  by (simp add: handle_set_valve_def Let_def split: option.splits prod.splits)

interpretation set_valve: handler handle_set_valve
proof unfold_locales
  show "\<not> fst (handle_set_valve e c s w) \<Longrightarrow> snd (handle_set_valve e c s w) = w" for e c s w
    unfolding set_valve_takes by (simp add: handle_set_valve_def)
qed (rule safe_handle_set_valve)

lemma safe_abort: "safe w (wiggle_stop_all e True (firing_sequence_request_abort w))"
  using inv_stop_all[OF inv_request_abort, of w e True] control_invD(1)[OF inv_request_abort, of w]
  by (simp add: safe_def wiggle_stop_all_ok) (simp add: firing_sequence_request_abort_def)

interpretation abort: handler handle_abort
  by unfold_locales (auto simp: handle_abort_def safe_abort)

lemma safe_firing_start: "config_ok cfg \<Longrightarrow> safe w (snd (firing_sequence_start e c cfg sm cm fm w))"
  using inv_firing_start[of w cfg e c sm cm fm]
  by (auto simp: safe_def firing_sequence_start_def finish_sequence_def Let_def)

lemma safe_start_drown: "safe w (snd (firing_sequence_start_drown e c w))"
proof (cases "control_inv w")
  case True
  then show ?thesis
    using drown_config_ok[of "valve (app w)"] control_invD(3)[of w]
    by (auto simp: firing_sequence_start_drown_def Let_def intro: safe_firing_start)
next
  case False
  then show ?thesis by (simp add: safe_def)
qed

interpretation drown: handler handle_drown
  by unfold_locales (auto simp: handle_drown_def case_prod_beta safe_start_drown)

lemma safe_fire: "safe w (snd (handle_fire e c s w))"
proof -
  obtain r w1 where p: "firing_sequence_parse e s w = (r, w1)" by fastforce
  have w1: "safe w w1" using safe_quiet[OF quiet_firing_parse, of w e s] p by simp
  have "safe w (snd (firing_sequence_start e c cfg sm cm fm w1))" if "r = Some cfg" for cfg sm cm fm
    using firing_sequence_parse_ok(1)[of e s w cfg w1] p that
    by (intro safe_trans [OF w1 safe_firing_start]) simp
  then show ?thesis
    using w1 by (auto simp: handle_fire_def p case_prod_beta split: option.splits)
qed

interpretation fire: handler handle_fire
  by unfold_locales
    (simp_all add: safe_fire, auto simp: handle_fire_def case_prod_beta split: option.splits prod.splits if_splits)

interpretation wiggle_stop: handler handle_wiggle_stop
  by unfold_locales
    (auto simp: handle_wiggle_stop_def case_prod_beta safe_wiggle_stop_loop)

interpretation wiggle: handler handle_wiggle
  by unfold_locales
    (auto simp: handle_wiggle_def case_prod_beta app_state_get_def safe_wiggle_loop split: app_state.splits)

lemma safe_send_command: "safe w (snd (can_bus_send_command e fd i v d w))"
  using frames_send_command[of w e fd i v d] by (simp add: safe_def control_inv_def sequence_ok_def)

lemma safe_logger_printf [simp]: "safe w w' \<Longrightarrow> safe w (logger_printf e k m w')"
  by (rule safe_trans [OF _ safe_quiet [OF quiet_logger_printf]])

interpretation raw_can: handler handle_raw_can
  by unfold_locales
    (auto simp: handle_raw_can_def case_prod_beta safe_send_command split: option.splits)


interpretation t_state: silent_handler handle_testing_state
  by unfold_locales (auto simp: handle_testing_state_def Let_def)

lemma testing_set_valve_takes:
  "fst (handle_testing_set_valve e c s w) \<longleftrightarrow> starts_with ''SET_VALVE'' s"
  by (simp add: handle_testing_set_valve_def split: option.splits prod.splits)

interpretation t_set_valve: silent_handler handle_testing_set_valve
proof unfold_locales
  show "\<not> fst (handle_testing_set_valve e c s w) \<Longrightarrow> snd (handle_testing_set_valve e c s w) = w" for e c s w
    unfolding testing_set_valve_takes by (simp add: handle_testing_set_valve_def)
  show "silent_can w (snd (handle_testing_set_valve e c s w))" for e c s w
    by (simp add: handle_testing_set_valve_def split: option.splits prod.splits)
qed

interpretation t_wiggle_stop: silent_handler handle_testing_wiggle_stop
  by unfold_locales (auto simp: handle_testing_wiggle_stop_def case_prod_beta)

interpretation t_wiggle: silent_handler handle_testing_wiggle
  by unfold_locales (auto simp: handle_testing_wiggle_def case_prod_beta)

interpretation t_drown: silent_handler handle_testing_drown
  by unfold_locales (auto simp: handle_testing_drown_def)

interpretation t_abort: silent_handler handle_testing_abort
  by unfold_locales (auto simp: handle_testing_abort_def)

lemma silent_testing_fire: "silent_can w (snd (handle_testing_fire e c s w))"
proof -
  have q: "silent_can w (snd (firing_sequence_parse e s w))" by (rule quiet_silent) blast
  then show ?thesis
    by (auto simp: handle_testing_fire_def case_prod_beta split: option.splits prod.splits
        intro: silent_can_trans)
qed

interpretation t_fire: silent_handler handle_testing_fire
  by unfold_locales
    (simp_all add: silent_testing_fire, auto simp: handle_testing_fire_def split: option.splits prod.splits if_splits)

interpretation t_raw_can: silent_handler handle_testing_raw_can
  by unfold_locales (auto simp: handle_testing_raw_can_def split: option.splits)

section \<open>The dispatcher\<close>

lemma quiet_copy_event [simp, intro]: "quiet w (log_event (EvAlloc b) w)"
  by blast

lemma with_copy_silent: "(\<And>w. silent_can w (k w)) \<Longrightarrow> silent_can w (with_copy e c k w)"
  by (auto simp: with_copy_def Let_def
      intro: silent_can_trans [OF quiet_silent [OF quiet_copy_event]])

lemma with_copy_safe: "(\<And>w. safe w (k w)) \<Longrightarrow> safe w (with_copy e c k w)"
  by (auto simp: with_copy_def Let_def
      intro: safe_trans [OF safe_quiet [OF quiet_copy_event]] safe_quiet [OF quiet_copy_event])

text \<open>Testing mode parses and replies, and does nothing else.\<close>

lemma silent_testing_command: "silent_can w (handle_testing_command e c s w)"
  unfolding handle_testing_command_def
  by (intro t_abort.or_else_silent t_state.or_else_silent t_set_valve.or_else_silent with_copy_silent
      t_wiggle_stop.or_else_silent t_wiggle.or_else_silent t_drown.or_else_silent t_fire.or_else_silent
      t_raw_can.or_else_silent silent_send_reply)

lemma safe_operational: "safe w (handle_operational e c s w)"
  unfolding handle_operational_def
  by (auto intro!: drown.or_else_safe fire.or_else_safe raw_can.or_else_safe)

lemma safe_live_command: "safe w (handle_live_command e c s w)"
  unfolding handle_live_command_def
  by (intro abort.or_else_safe state_command.or_else_safe set_valve.or_else_safe with_copy_safe
      wiggle_stop.or_else_safe wiggle.or_else_safe safe_operational)

lemma safe_command_handle_text: "safe w (command_handle_text e c text w)"
  unfolding command_handle_text_def
  by (intro read_toggle.or_else_safe)
    (auto simp: Let_def safe_live_command intro: safe_silent silent_testing_command)

section \<open>Properties\<close>

lemma sample_inv: "control_inv sample_world" "control_inv hotfire_world"
  by (simp_all add: control_inv_def sample_simps hotfire_still_def wiggles_ok_init valve_ok_default
      can_tables_ok_def sequence_ok_def frames_ok_def)

text \<open>C5.  No text command breaks the control state: from a state in which the wiggle table, the valve
  profile and the CAN tables are well formed, HOTFIRE has no active wiggle, the sequence flag agrees with
  the firing thread and every frame sent was valid, any text from any client leads to such a state, and
  leaves the configuration, the stop flag, the descriptors, the server handle and the received CAN values
  untouched.\<close>

theorem command_keeps_contract:
  assumes "control_inv w"
  shows "control_inv (command_handle_text e c msg w) \<and>
    fixed_part (app (command_handle_text e c msg w)) = fixed_part (app w)"
  using safe_command_handle_text[of w e c msg] assms by (simp add: safe_def)

theorem command_keeps_contract_witness:
  "control_inv (command_handle_text sample_env 1 ''STATE#HOTFIRE'' sample_world)"
  using command_keeps_contract[OF sample_inv(1), of sample_env 1 "''STATE#HOTFIRE''"] by simp

end
