(* ===== verification/Dispatch.thy ===== *)
theory Dispatch
  imports ControlInv
begin

text \<open>
  What the dispatcher does with particular commands: nothing starts a firing sequence outside HOTFIRE,
  and a FIRE command in HOTFIRE starts the sequence it describes.
\<close>

section \<open>No firing in PRECHILLING\<close>

lemma set_valve_worker [simp]: "worker (snd (handle_set_valve e c s w)) = worker w"
proof -
  have "worker (set_valve f w) = worker w" for f by (simp add: set_valve_def)
  then show ?thesis by (simp add: handle_set_valve_def Let_def split: option.splits prod.splits)
qed

lemma wiggle_stop_loop_worker [simp]: "worker (snd (snd (wiggle_stop_loop e ts n w))) = worker w"
proof (induction ts arbitrary: n w)
  case Nil
  then show ?case by simp
next
  case (Cons t ts)
  have "worker (snd (wiggle_stop e i w)) = worker w" for i
    by (simp add: wiggle_stop_def deactivate_slot_def split: option.splits)
  with Cons show ?case by (simp add: case_prod_beta split: list.splits scanval.splits)
qed

lemma wiggle_loop_worker [simp]: "worker (snd (snd (wiggle_loop e ts n w))) = worker w"
  by (induction ts arbitrary: n w) (simp_all add: case_prod_beta split: option.splits)

lemma handlers_worker:
  "worker (snd (handle_read_toggle e c s w)) = worker w" "worker (snd (handle_abort e c s w)) = worker w"
  "worker (snd (handle_state_command e c s w)) = worker w"
  "worker (snd (handle_wiggle_stop e c s w)) = worker w" "worker (snd (handle_wiggle e c s w)) = worker w"
  by (simp_all add: handle_read_toggle_def set_write_only_def handle_abort_def firing_sequence_request_abort_def
      handle_state_command_def handle_wiggle_stop_def handle_wiggle_def Let_def case_prod_beta split: option.splits)

lemma with_copy_worker:
  "worker (k (log_event (EvAlloc True) w)) = worker (log_event (EvAlloc True) w) \<Longrightarrow>
   worker (with_copy e c k w) = worker w"
  by (simp add: with_copy_def Let_def)

context handler begin

lemma or_else_worker:
  "worker (snd (h e c s w)) = worker w \<Longrightarrow> worker (k w) = worker w \<Longrightarrow> worker (or_else (h e c s) k w) = worker w"
  by (rule or_else_cases [where P = "\<lambda>v. worker v = worker w"])

end

lemma operational_prechilling:
  "state (app w) = APP_STATE_PRECHILLING \<Longrightarrow>
   handle_operational e c s w = send_reply e c ''System is in PRE-HOTFIRE state; command ignored.'' w"
  by (simp add: handle_operational_def app_state_get_def)

lemma live_prechilling_worker:
  assumes "state (app w) = APP_STATE_PRECHILLING"
  shows "worker (handle_live_command e c s w) = worker w"
  unfolding handle_live_command_def
  by (intro abort.or_else_worker state_command.or_else_worker set_valve.or_else_worker with_copy_worker
      wiggle_stop.or_else_worker wiggle.or_else_worker handlers_worker set_valve_worker)
    (simp add: operational_prechilling assms)

section \<open>Starting a sequence by command\<close>

lemma strchr_fire:
  "bs \<noteq> [] \<Longrightarrow> strchr CHR ''|'' (fire_text bs) = Some (concat (map (\<lambda>b. CHR ''|'' # block_text b) bs))"
  by (cases bs) (simp_all add: strchr_def fire_text_def)

lemma valid_token_text: "valid_block b \<Longrightarrow> valid_token (block_text b)"
  by (simp add: valid_token_def scan_block_text)

text \<open>Printing a sequence and parsing it gives the sequence back.\<close>

lemma parse_fire_text:
  assumes "bs \<noteq> []" and "list_all valid_block (take APP_MAX_FIRING_BLOCKS bs)" and "alloc_ok e (trace w)"
  shows "\<exists>c. firing_sequence_parse e (fire_text bs) w = (Some c, log_event (EvAlloc True) w) \<and>
    blocks_of c = take APP_MAX_FIRING_BLOCKS bs \<and> config_ok c \<and> \<not> drown_injector c"
proof -
  let ?r = "concat (map (\<lambda>b. CHR ''|'' # block_text b) bs)" and ?bs = "take APP_MAX_FIRING_BLOCKS bs"
  have "?r = CHR ''|'' # tl ?r" using assms(1) by (cases bs) simp_all
  then have ts: "strtok_all CHR ''|'' (tl ?r) = map block_text bs" by (metis strtok_all_delim strtok_fire)
  have "list_all valid_token (map block_text ?bs)"
    using assms(2) unfolding list_all_iff set_map by (blast intro: valid_token_text)
  moreover have "map (the \<circ> scan_block) (map block_text ?bs) = ?bs" by (simp add: comp_def scan_block_text)
  ultimately obtain c where c: "parse_blocks (map block_text bs) zero_config = Some c" "config_shape c"
    "\<not> drown_injector c" "blocks_of c = ?bs"
    using parse_blocks_zero[of "map block_text bs"] by (auto simp: take_map simp del: map_map)
  have n: "0 < num_blocks c"
    using assms(1) arg_cong[OF c(4), of length] by (simp add: APP_MAX_FIRING_BLOCKS_def)
  have "firing_sequence_parse e (fire_text bs) w = (Some c, log_event (EvAlloc True) w)"
    using assms(1,3) c(1) n by (simp add: firing_sequence_parse_def strchr_fire Let_def ts)
  moreover have "config_ok c" using c n assms(2) by (simp add: config_ok_def)
  ultimately show ?thesis using c by blast
qed

text \<open>Every handler before the FIRE handler declines a text that begins with \<^verbatim>\<open>FIRE\<close>.\<close>

lemma fire_text_decline:
  "handle_read_toggle e c (fire_text bs) w = (False, w)" "handle_abort e c (fire_text bs) w = (False, w)"
  "handle_state_command e c (fire_text bs) w = (False, w)" "handle_set_valve e c (fire_text bs) w = (False, w)"
  "handle_wiggle_stop e c (fire_text bs) w = (False, w)" "handle_wiggle e c (fire_text bs) w = (False, w)"
  "handle_drown e c (fire_text bs) w = (False, w)" "strip_can_prefix (fire_text bs) = fire_text bs"
  by (simp_all add: fire_text_def handle_read_toggle_def handle_abort_def handle_state_command_def
      handle_set_valve_def handle_wiggle_stop_def handle_wiggle_def handle_drown_def strip_can_prefix_def
      starts_with_def split: option.splits)

lemma fire_command:
  assumes "\<not> testing_mode (config (app w))" and "\<not> read_only (config (app w))"
    and "state (app w) = APP_STATE_HOTFIRE" and "\<not> sequence_active (app w)"
    and "\<And>t. alloc_ok e t" and "\<And>t. thread_create e t = 0"
    and "bs \<noteq> []" and "length bs \<le> APP_MAX_FIRING_BLOCKS" and "list_all valid_block bs"
  obtains args where "at_pc args WStart (command_handle_text e c (fire_text bs) w)"
    and "blocks_of (arg_config args) = bs" and "config_ok (arg_config args)" and "\<not> drown_injector (arg_config args)"
    and "app (command_handle_text e c (fire_text bs) w) = (app w)\<lparr>sequence_active := True, sequence_abort := False\<rparr>"
    and "can_tx (trace (command_handle_text e c (fire_text bs) w)) = can_tx (trace w)"
proof -
  let ?w1 = "log_event (EvAlloc True) w"
  obtain cfg where cfg: "firing_sequence_parse e (fire_text bs) ?w1 = (Some cfg, log_event (EvAlloc True) ?w1)"
    "blocks_of cfg = bs" "config_ok cfg" "\<not> drown_injector cfg"
    using parse_fire_text[OF assms(7), of e ?w1] assms(5,8,9) by auto
  let ?w2 = "log_event (EvAlloc True) ?w1"
  have fire: "starts_with ''FIRE#8765'' (fire_text bs)" by (simp add: starts_with_def fire_text_def)
  obtain rc w3 where st: "firing_sequence_start e c cfg (fire_started_text cfg) ''Firing sequence completed''
      ''Firing sequence failed to start'' ?w2 = (rc, w3)" by fastforce
  have rc: "rc = 0" using st assms(4-6) cfg(3) by (auto simp: firing_sequence_start_def Let_def config_ok_def)
  have "handle_operational e c (fire_text bs) ?w1 = w3"
    using assms(3) fire cfg(1) st rc
    by (simp add: handle_operational_def app_state_get_def or_else_def fire_text_decline handle_fire_def)
  then have cmd: "command_handle_text e c (fire_text bs) w = w3"
    using assms(1,2,5)
    by (simp add: command_handle_text_def or_else_def fire_text_decline handle_live_command_def with_copy_def Let_def)
  from st show thesis
  proof (cases rule: firing_start_cases)
    case (started args)
    then show ?thesis using that[of args] cmd cfg by simp
  qed (use rc in simp_all)
qed

section \<open>Properties\<close>

text \<open>C4.  No command starts a firing sequence in PRECHILLING: whatever the text, the client and the
  answers of the environment, the firing thread is the same before and after.\<close>

theorem no_firing_in_prechilling:
  assumes "state (app w) = APP_STATE_PRECHILLING"
  shows "worker (command_handle_text e c text w) = worker w"
proof -
  have "worker (handle_testing_command e c s w) = worker w" for s
    using silent_testing_command[of w e c s] by (rule silent_canD)
  then show ?thesis
    unfolding command_handle_text_def
    by (intro read_toggle.or_else_worker) (simp_all add: handlers_worker Let_def live_prechilling_worker assms)
qed

theorem no_firing_in_prechilling_witness:
  "worker (command_handle_text sample_env 1 (fire_text [(0x709, 0x99, 0, 0)]) sample_world) = None"
  using no_firing_in_prechilling[of sample_world sample_env 1] by (simp add: sample_simps)

text \<open>C9.  A sequence of valid blocks printed as a FIRE command is parsed back to the same blocks in the
  same order; of a longer sequence the first twenty-four blocks are kept and the others are dropped
  without an error.\<close>

theorem fire_text_roundtrip:
  assumes "bs \<noteq> []" and "list_all valid_block (take 24 bs)" and "alloc_ok e (trace w)"
  shows "\<exists>cfg. fst (firing_sequence_parse e (fire_text bs) w) = Some cfg \<and> blocks_of cfg = take 24 bs"
  using parse_fire_text[OF assms(1) _ assms(3)] assms(2) by (force simp: APP_MAX_FIRING_BLOCKS_def)

theorem fire_text_roundtrip_witness:
  "\<exists>cfg. fst (firing_sequence_parse sample_env (fire_text (replicate 30 (0x709, 1, 2, 3))) sample_world) = Some cfg \<and>
     blocks_of cfg = replicate 24 (0x709, 1, 2, 3)"
  using fire_text_roundtrip[of "replicate 30 (0x709, 1, 2, 3)" sample_env sample_world]
  by (simp add: list_all_iff valid_block_def sample_env_def)

end
