(* ===== verification/WsBridge.thy ===== *)
theory WsBridge
  imports ControlInv
begin

text \<open>
  The callbacks and the lifecycle of \<^verbatim>\<open>src/ws/ws_bridge.c\<close>: the list of client contexts that
  \<^verbatim>\<open>on_connect\<close> and \<^verbatim>\<open>on_disconnect\<close> maintain, the message callback that feeds the command
  dispatcher, and starting and stopping the server.  \<^verbatim>\<open>on_error\<close> and \<^verbatim>\<open>on_handshake_fail\<close> only print.
  Between them, what happens on other threads while the main thread is at some point of its code: the
  callbacks, which the library runs as long as the server exists, the steps of the firing thread, frames
  arriving, and signals (the handler \<^verbatim>\<open>on_signal\<close> of \<^verbatim>\<open>src/main.c\<close>).
\<close>

datatype ws_frame_type = WS_TEXT_FRAME | WS_PING_FRAME | WS_OTHER_FRAME nat

record ws_frame =
  ftype :: ws_frame_type
  payload :: "char list"

section \<open>Callbacks\<close>

text \<open>\<^verbatim>\<open>calloc\<close> yields the address of the new node; the new node goes to the front of the list.\<close>

definition on_connect :: "env \<Rightarrow> client \<Rightarrow> world \<Rightarrow> world" where
  "on_connect e c w =
     (case calloc_ctx e (trace w) of
        None \<Rightarrow> log_event (EvCloseClient c ''server memory error'') w
      | Some p \<Rightarrow>
          let w1 = log_event (EvSetUserData c (Some p)) w;
              w2 = w1\<lparr>app := (app w1)\<lparr>clients :=
                     \<lparr>ctx_addr = p, ctx_client = c, write_only = False\<rparr> # clients (app w1)\<rparr>\<rparr>
          in ws_bridge_send_current_state e c (ws_bridge_send_text e c ''Hello from server'' w2))"

fun unlink_ctx :: "nat option \<Rightarrow> app_client_ctx list \<Rightarrow> app_client_ctx list" where
  "unlink_ctx p [] = []"
| "unlink_ctx p (x # xs) = (if Some (ctx_addr x) = p then xs else x # unlink_ctx p xs)"

definition on_disconnect :: "env \<Rightarrow> client \<Rightarrow> world \<Rightarrow> world" where
  "on_disconnect e c w =
     (let ctx = ws_user_data e (trace w) c
      in log_event (EvSetUserData c None)
           (w\<lparr>app := (app w)\<lparr>clients := unlink_ctx ctx (clients (app w))\<rparr>\<rparr>))"

definition on_message :: "env \<Rightarrow> client \<Rightarrow> ws_frame \<Rightarrow> world \<Rightarrow> world" where
  "on_message e c frame w =
     (if ftype frame \<noteq> WS_TEXT_FRAME \<and> ftype frame \<noteq> WS_PING_FRAME then w
      else if ftype frame = WS_PING_FRAME then log_event (EvPong c) w
      else
        let ok = alloc_ok e (trace w); w1 = log_event (EvAlloc ok) w
        in if \<not> ok then ws_bridge_send_text e c ''Server error: out of memory'' w1
           else
             let text = c_str (payload frame)
             in command_handle_text e c text (logger_write e ''WS_RX'' text w1))"

section \<open>Lifecycle\<close>

definition ws_bridge_start :: "env \<Rightarrow> world \<Rightarrow> int \<times> world" where
  "ws_bridge_start e w =
     (case sys e (SysWsCreate (ws_port (config (app w))) (max_clients (config (app w)))) w of (h, w1) \<Rightarrow>
        if h = 0 then (-1, w1)
        else sys e SysWsStart (w1\<lparr>app := (app w1)\<lparr>ws := True\<rparr>\<rparr>))"

definition upd_app :: "(app_context \<Rightarrow> app_context) \<Rightarrow> world \<Rightarrow> world" where
  "upd_app f w = w\<lparr>app := f (app w)\<rparr>"

definition on_signal :: "world \<Rightarrow> world" where
  "on_signal w = upd_app (\<lambda>a. a\<lparr>stop := True\<rparr>) w"

datatype action =
    ActConnect client | ActDisconnect client | ActMessage client ws_frame
  | ActThread | ActArrive "can_read_result list" | ActSignal

fun do_action :: "env \<Rightarrow> action \<Rightarrow> world \<Rightarrow> world" where
  "do_action e (ActConnect c) w = (if ws (app w) then on_connect e c w else w)"
| "do_action e (ActDisconnect c) w = (if ws (app w) then on_disconnect e c w else w)"
| "do_action e (ActMessage c f) w = (if ws (app w) then on_message e c f w else w)"
| "do_action e ActThread w = worker_step e w"
| "do_action e (ActArrive q) w = w\<lparr>rxq := rxq w @ q\<rparr>"
| "do_action e ActSignal w = on_signal w"

fun perform :: "env \<Rightarrow> action list \<Rightarrow> world \<Rightarrow> world" where
  "perform e [] w = w"
| "perform e (a # as) w = perform e as (do_action e a w)"

text \<open>\<open>others k\<close> is what the other threads do at point \<open>k\<close>: after \<^verbatim>\<open>ws_server_stop\<close>, when callbacks may
  still run, and after \<^verbatim>\<open>ws_server_join\<close>.\<close>

definition ws_bridge_stop :: "env \<Rightarrow> (nat \<Rightarrow> action list) \<Rightarrow> world \<Rightarrow> world" where
  "ws_bridge_stop e others w =
     (if \<not> ws (app w) then w
      else
        let w1 = perform e (others 0) (snd (sys e SysWsStop w));
            w2 = perform e (others 1) (snd (sys e SysWsJoin w1));
            w3 = snd (sys e SysWsDestroy w2)
        in w3\<lparr>app := (app w3)\<lparr>ws := False, clients := []\<rparr>\<rparr>)"

section \<open>The callbacks keep the invariant\<close>

lemma safe_clients:
  "app w' = (app w)\<lparr>clients := cs\<rparr> \<Longrightarrow> worker w' = worker w \<Longrightarrow> can_tx (trace w') = can_tx (trace w) \<Longrightarrow>
   sys_log (trace w') = sys_log (trace w) \<Longrightarrow> safe w w'"
  by (simp add: safe_def control_inv_def hotfire_still_def can_tables_ok_def sequence_ok_def frames_ok_def)

lemma safe_on_connect: "safe w (on_connect e c w)"
  by (auto simp: on_connect_def Let_def silent_can_def split: option.splits
      intro: safe_clients safe_silent)

lemma safe_on_disconnect: "safe w (on_disconnect e c w)"
  by (auto simp: on_disconnect_def Let_def intro: safe_clients)

lemma safe_on_message: "safe w (on_message e c f w)"
proof -
  let ?w1 = "log_event (EvAlloc True) w" and ?t = "c_str (payload f)"
  have "safe w ?w1" by (rule safe_quiet) blast
  also have "safe ?w1 (logger_write e ''WS_RX'' ?t ?w1)" by (rule safe_quiet) blast
  also have "safe \<dots> (command_handle_text e c ?t \<dots>)" by (rule safe_command_handle_text)
  finally have cmd: "safe w (command_handle_text e c ?t (logger_write e ''WS_RX'' ?t ?w1))" .
  have oom: "silent_can w (ws_bridge_send_text e c m (log_event (EvAlloc False) w))" for m
    by (rule silent_can_trans [OF quiet_silent [OF quiet_copy_event] silent_send_text])
  have pong: "silent_can w (log_event (EvPong c) w)" by (simp add: silent_can_def)
  show ?thesis
    using cmd oom pong by (simp add: on_message_def Let_def safe_silent)
qed

section \<open>Actions of the other threads\<close>

lemma upd_app_frame [simp]:
  "app (upd_app f w) = f (app w)" "worker (upd_app f w) = worker w" "trace (upd_app f w) = trace w"
  "rxq (upd_app f w) = rxq w" "logger (upd_app f w) = logger w"
  by (simp_all add: upd_app_def)

lemma inv_signal: "control_inv w \<Longrightarrow> control_inv (on_signal w)"
  by (simp add: on_signal_def upd_app_def control_inv_def hotfire_still_def can_tables_ok_def
      sequence_ok_def frames_ok_def)

lemma inv_arrive: "control_inv w \<Longrightarrow> control_inv (w\<lparr>rxq := q\<rparr>)"
  by (simp add: control_inv_def sequence_ok_def frames_ok_def)

lemma inv_safe: "safe w w' \<Longrightarrow> control_inv w \<Longrightarrow> control_inv w'"
  by (simp add: safe_def)

lemmas inv_steps = inv_safe [OF safe_on_connect] inv_safe [OF safe_on_disconnect]
  inv_safe [OF safe_on_message] inv_worker_step inv_arrive inv_signal

lemma inv_do_action: "control_inv w \<Longrightarrow> control_inv (do_action e a w)"
  by (cases a) (simp_all add: inv_steps)

lemma inv_perform: "control_inv w \<Longrightarrow> control_inv (perform e as w)"
  by (induction "as" arbitrary: w) (simp_all add: inv_do_action)

lemma worker_step_handles:
  "fixed_part (app (worker_step e w)) = fixed_part (app w)" "sys_log (trace (worker_step e w)) = sys_log (trace w)"
  by (simp_all add: worker_step_def finish_sequence_def Let_def case_prod_beta split: option.splits worker_pc.splits)

text \<open>What other threads never touch: the configuration, the descriptors, the server handle, and the calls
  that open and close them; only a signal sets the stop flag.\<close>

definition handles :: "app_context \<Rightarrow> app_config \<times> (int \<times> int \<times> int) \<times> bool" where
  "handles a = (config a, (timer_fd a, epoll_fd a, can_fd a), ws a)"

lemma handlesD:
  assumes "handles b = handles a"
  shows "config b = config a" "timer_fd b = timer_fd a" "epoll_fd b = epoll_fd a" "can_fd b = can_fd a" "ws b = ws a"
  using assms by (simp_all add: handles_def)

lemma handles_fixed: "fixed_part b = fixed_part a \<Longrightarrow> handles b = handles a \<and> stop b = stop a"
  by (simp add: handles_def fixed_part_def)

lemma safe_handles:
  "safe w w' \<Longrightarrow> control_inv w \<Longrightarrow>
   handles (app w') = handles (app w) \<and> stop (app w') = stop (app w) \<and> sys_log (trace w') = sys_log (trace w)"
  using handles_fixed[of "app w'" "app w"] by (simp add: safe_def)

lemma do_action_handles:
  assumes "control_inv w"
  shows "handles (app (do_action e a w)) = handles (app w) \<and>
    stop (app (do_action e a w)) = (stop (app w) \<or> a = ActSignal) \<and>
    sys_log (trace (do_action e a w)) = sys_log (trace w)"
proof (cases a)
  case ActThread
  then show ?thesis using handles_fixed[OF worker_step_handles(1), of e w] by (simp add: worker_step_handles)
next
  case ActSignal
  then show ?thesis by (simp add: on_signal_def handles_def)
qed (use assms in \<open>simp_all add: safe_handles [OF safe_on_connect] safe_handles [OF safe_on_disconnect]
      safe_handles [OF safe_on_message]\<close>)

lemma perform_handles:
  assumes "control_inv w"
  shows "handles (app (perform e as w)) = handles (app w) \<and>
    stop (app (perform e as w)) = (stop (app w) \<or> ActSignal \<in> set as) \<and>
    sys_log (trace (perform e as w)) = sys_log (trace w)"
  using assms
proof (induction "as" arbitrary: w)
  case (Cons a as)
  show ?case
    using Cons.IH[OF inv_do_action [OF Cons.prems], of e a] do_action_handles[OF Cons.prems, of e a]
    by (simp add: eq_commute [of a])
qed simp

section \<open>The client list\<close>

text \<open>The WebSocket library's promise about user data: it returns what was last stored for the
  client.\<close>

definition user_data_law :: "env \<Rightarrow> bool" where
  "user_data_law e \<longleftrightarrow> (\<forall>t c. ws_user_data e t c = stored_user_data t c)"

text \<open>Every node is found through its client's user data, and no two nodes share an address or a
  client.\<close>

definition clients_ok :: "env \<Rightarrow> world \<Rightarrow> bool" where
  "clients_ok e w \<longleftrightarrow> distinct (map ctx_addr (clients (app w))) \<and> distinct (map ctx_client (clients (app w))) \<and>
     (\<forall>x \<in> set (clients (app w)). ws_user_data e (trace w) (ctx_client x) = Some (ctx_addr x))"

lemma stored_send_text [simp]:
  "stored_user_data (trace (ws_bridge_send_text e c' m w)) c = stored_user_data (trace w) c"
  by (simp add: ws_bridge_send_text_def)

lemma stored_send_state [simp]:
  "stored_user_data (trace (ws_bridge_send_current_state e c' w)) c = stored_user_data (trace w) c"
  by (simp add: ws_bridge_send_current_state_def)

lemma on_connect_clients:
  assumes "user_data_law e" and "clients_ok e w" and "calloc_ctx e (trace w) = Some p"
    and "p \<notin> set (map ctx_addr (clients (app w)))" and "c \<notin> set (map ctx_client (clients (app w)))"
  shows "clients (app (on_connect e c w)) =
      \<lparr>ctx_addr = p, ctx_client = c, write_only = False\<rparr> # clients (app w)"
    and "clients_ok e (on_connect e c w)"
  using assms by (auto simp: on_connect_def Let_def clients_ok_def user_data_law_def)

lemma unlink_ctx_filter:
  "distinct (map ctx_addr xs) \<Longrightarrow> unlink_ctx (Some p) xs = filter (\<lambda>x. ctx_addr x \<noteq> p) xs"
  proof (induction xs)
  case (Cons a xs)
  have "filter (\<lambda>x. ctx_addr x \<noteq> ctx_addr a) xs = xs"
    using Cons.prems by (intro filter_True) (auto simp: image_iff)
  with Cons show ?case by auto
qed simp

lemma unlink_ctx_None [simp]: "unlink_ctx None xs = xs"
  by (induction xs) auto

text \<open>Disconnecting removes the client's node and no other.\<close>

lemma on_disconnect_clients:
  assumes "user_data_law e" and "clients_ok e w" and "c \<in> set (map ctx_client (clients (app w)))"
  shows "clients (app (on_disconnect e c w)) = filter (\<lambda>x. ctx_client x \<noteq> c) (clients (app w))"
    and "clients_ok e (on_disconnect e c w)"
proof -
  let ?cs = "clients (app w)"
  obtain x where x: "x \<in> set ?cs" "ctx_client x = c" using assms(3) by auto
  then have ud: "ws_user_data e (trace w) c = Some (ctx_addr x)" using assms(2) by (auto simp: clients_ok_def)
  have same: "ctx_addr y = ctx_addr x \<longleftrightarrow> ctx_client y = c" if "y \<in> set ?cs" for y
    using assms(2) x that by (auto simp: clients_ok_def distinct_map inj_on_def)
  have "filter (\<lambda>y. ctx_addr y \<noteq> ctx_addr x) ?cs = filter (\<lambda>y. ctx_client y \<noteq> c) ?cs"
    using same by (intro filter_cong) auto
  then show eq: "clients (app (on_disconnect e c w)) = filter (\<lambda>y. ctx_client y \<noteq> c) ?cs"
    using assms(2) ud by (simp add: on_disconnect_def Let_def clients_ok_def unlink_ctx_filter)
  show "clients_ok e (on_disconnect e c w)"
    using assms(1,2) eq by (auto simp: clients_ok_def user_data_law_def distinct_map on_disconnect_def Let_def
        intro: inj_on_subset)
qed

section \<open>Properties\<close>

text \<open>C25.  A new connection is registered at the front of the client list with its own node, reading
  enabled, and the list stays consistent with the library's user data, when the library returns the user
  data last stored and \<^verbatim>\<open>calloc\<close> yields an address not in use.  When \<^verbatim>\<open>calloc\<close> fails the list is unchanged.\<close>

theorem connect_registers:
  assumes "user_data_law e" and "clients_ok e w" and "c \<notin> set (map ctx_client (clients (app w)))"
    and "\<forall>p. calloc_ctx e (trace w) = Some p \<longrightarrow> p \<notin> set (map ctx_addr (clients (app w)))"
  shows "case calloc_ctx e (trace w) of
      None \<Rightarrow> clients (app (on_connect e c w)) = clients (app w)
    | Some p \<Rightarrow> clients (app (on_connect e c w)) = \<lparr>ctx_addr = p, ctx_client = c, write_only = False\<rparr> # clients (app w) \<and>
        clients_ok e (on_connect e c w)"
proof (cases "calloc_ctx e (trace w)")
  case None
  then show ?thesis by (simp add: on_connect_def)
next
  case (Some p)
  then show ?thesis using on_connect_clients[OF assms(1,2) Some _ assms(3)] assms(4) by simp
qed

lemma sample_user_data: "user_data_law sample_env"
  by (simp add: user_data_law_def sample_env_def)

lemma sample_clients_ok: "clients_ok sample_env sample_world"
  by (simp add: clients_ok_def sample_simps)

theorem connect_registers_witness:
  "map ctx_client (clients (app (on_connect sample_env 7 sample_world))) = [7]"
  using connect_registers[OF sample_user_data sample_clients_ok, of 7]
  by (simp add: sample_simps)

text \<open>C26.  A disconnection removes the client's node and no other from the list, and the list stays
  consistent with the user data.\<close>

theorem disconnect_removes:
  assumes "user_data_law e" and "clients_ok e w" and "c \<in> set (map ctx_client (clients (app w)))"
  shows "clients (app (on_disconnect e c w)) = filter (\<lambda>x. ctx_client x \<noteq> c) (clients (app w)) \<and>
    clients_ok e (on_disconnect e c w)"
  using on_disconnect_clients[OF assms] by simp

theorem disconnect_removes_witness:
  "clients (app (on_disconnect sample_env 7 (on_connect sample_env 7 sample_world))) = []"
proof -
  have c: "clients (app (on_connect sample_env 7 sample_world)) = [\<lparr>ctx_addr = 0, ctx_client = 7, write_only = False\<rparr>]"
    and ok: "clients_ok sample_env (on_connect sample_env 7 sample_world)"
    using on_connect_clients[OF sample_user_data sample_clients_ok, of 0 7] by (simp_all add: sample_simps)
  show ?thesis using disconnect_removes[OF sample_user_data ok, of 7] c by simp
qed

end
