(* ===== verification/MainLoop.thy ===== *)
theory MainLoop
  imports WsBridge
begin

text \<open>
  The main program, \<^verbatim>\<open>src/main.c\<close>: bringing the runtime up and down, one turn of the event loop, and the
  loops of \<^verbatim>\<open>main\<close>, with the activity of the other threads as a parameter wherever they can intervene.
\<close>

section \<open>Runtime\<close>

definition register_fd :: "env \<Rightarrow> int \<Rightarrow> int \<Rightarrow> world \<Rightarrow> int \<times> world" where
  "register_fd e epfd fd w = sys e (SysEpollAdd epfd fd) w"

text \<open>\<open>/\<close> and \<open>%\<close> on the positive tick interval.\<close>

definition init_timer :: "env \<Rightarrow> world \<Rightarrow> int \<times> world" where
  "init_timer e w =
     (case sys e SysTimerCreate w of (tfd, w1) \<Rightarrow>
        let w2 = upd_app (\<lambda>a. a\<lparr>timer_fd := tfd\<rparr>) w1;
            ms = tick_interval_ms (config (app w2))
        in if tfd < 0 then (-1, w2)
           else case sys e (SysTimerSet tfd (ms div 1000) ((ms mod 1000) * 1000000)) w2 of (rc, w3) \<Rightarrow>
             if rc \<noteq> 0 then (-1, w3)
             else case register_fd e (epoll_fd (app w3)) tfd w3 of (rc2, w4) \<Rightarrow>
               if rc2 \<noteq> 0 then (-1, w4) else (0, w4))"

definition init_epoll :: "env \<Rightarrow> world \<Rightarrow> int \<times> world" where
  "init_epoll e w =
     (case sys e SysEpollCreate w of (epfd, w1) \<Rightarrow>
        let w2 = upd_app (\<lambda>a. a\<lparr>epoll_fd := epfd\<rparr>) w1
        in if epfd < 0 then (-1, w2)
           else case register_fd e epfd (can_fd (app w2)) w2 of (rc, w3) \<Rightarrow>
             if rc \<noteq> 0 then (-1, w3) else init_timer e w3)"

definition init_runtime :: "env \<Rightarrow> world \<Rightarrow> int \<times> world" where
  "init_runtime e w =
     (let cfg = config (app w) in
      if testing_mode cfg then (0, w)
      else
        case (if auto_config_can cfg then can_bus_configure_interface e (can_ifname cfg) (can_bitrate cfg) w
              else (0, w)) of (rc, w1) \<Rightarrow>
          if rc \<noteq> 0 then (-1, w1)
          else case can_bus_open e (can_ifname cfg) w1 of (fd, w2) \<Rightarrow>
            let w3 = upd_app (\<lambda>a. a\<lparr>can_fd := fd\<rparr>) w2
            in if fd < 0 then (-1, w3) else init_epoll e w3)"

definition close_timer :: "env \<Rightarrow> world \<Rightarrow> world" where
  "close_timer e w =
     (if timer_fd (app w) \<ge> 0
      then upd_app (\<lambda>a. a\<lparr>timer_fd := -1\<rparr>) (snd (sys e (SysClose (timer_fd (app w))) w)) else w)"

definition close_epoll :: "env \<Rightarrow> world \<Rightarrow> world" where
  "close_epoll e w =
     (if epoll_fd (app w) \<ge> 0
      then upd_app (\<lambda>a. a\<lparr>epoll_fd := -1\<rparr>) (snd (sys e (SysClose (epoll_fd (app w))) w)) else w)"

text \<open>\<open>others k\<close> is what the other threads do at the \<open>k\<close>-th point of the shutdown: the server still runs
  callbacks until \<^verbatim>\<open>ws_bridge_stop\<close> has joined it, and nothing waits for the firing thread.\<close>

definition shutdown_runtime :: "env \<Rightarrow> (nat \<Rightarrow> action list) \<Rightarrow> world \<Rightarrow> world" where
  "shutdown_runtime e others w =
     (let w1 = perform e (others 0) (firing_sequence_request_abort w);
          w2 = perform e (others 1) (wiggle_stop_all e True w1);
          w3 = perform e (others 4) (ws_bridge_stop e (\<lambda>k. others (k + 2)) w2);
          w4 = perform e (others 5) (close_timer e w3);
          w5 = perform e (others 6) (close_epoll e w4);
          w6 = perform e (others 7) (can_bus_close e w5)
      in logger_close e w6)"

section \<open>One turn of the event loop\<close>

definition flush_can_updates :: "env \<Rightarrow> world \<Rightarrow> world" where
  "flush_can_updates e w =
     (case can_bus_format_dirty 8192 w of (buffer, w1) \<Rightarrow>
        if length buffer > 0 then ws_bridge_broadcast_text e buffer True w1 else w1)"

lemma store_rx_rxq [simp]: "rxq (can_bus_store_rx e f w) = rxq w"
  by (simp add: can_bus_store_rx_def Let_def)

text \<open>Reading the CAN socket until it is empty or fails.\<close>

function drain_can :: "env \<Rightarrow> world \<Rightarrow> world" where
  "drain_can e w =
     (case can_bus_read_frame (can_fd (app w)) w of (rc, frame, w1) \<Rightarrow>
        if rc = 1 then drain_can e (can_bus_store_rx e (the frame) w1) else w1)"
  by pat_completeness auto
termination
  by (relation "measure (\<lambda>(e, w). length (rxq w))")
    (auto simp: can_bus_read_frame_def split: if_splits list.splits can_read_result.splits)

declare drain_can.simps [simp del]

text \<open>\<^verbatim>\<open>do next += PERIOD while (next <= now)\<close>; \<open>None\<close> when it never ends, which the wrap-around of the
  64-bit addition makes possible for times within a second of the largest value.\<close>

partial_function (option) catch_up :: "u64 \<Rightarrow> u64 \<Rightarrow> u64 option" where
  "catch_up nxt now =
     (if nxt + HEARTBEAT_PERIOD_MS \<le> now then catch_up (nxt + HEARTBEAT_PERIOD_MS) now
      else Some (nxt + HEARTBEAT_PERIOD_MS))"

definition on_timer :: "env \<Rightarrow> u64 \<times> world \<Rightarrow> (u64 \<times> world) option" where
  "on_timer e s = (case s of (next_heartbeat_ms, w) \<Rightarrow>
     let w1 = wiggle_process e w in
     case heartbeat_now_ms e w1 of (now_ms, w2) \<Rightarrow>
       if now_ms \<ge> next_heartbeat_ms then
         let w3 = snd (heartbeat_send e (can_fd (app w2)) w2)
         in case catch_up next_heartbeat_ms now_ms of
              None \<Rightarrow> None
            | Some nxt \<Rightarrow> Some (nxt, flush_can_updates e w3)
       else Some (next_heartbeat_ms, flush_can_updates e w2))"

text \<open>The ready descriptors of one \<^verbatim>\<open>epoll_wait\<close>, in order.\<close>

fun loop_turn :: "env \<Rightarrow> int list \<Rightarrow> u64 \<times> world \<Rightarrow> (u64 \<times> world) option" where
  "loop_turn e [] s = Some s"
| "loop_turn e (fd # fds) s =
     (if fd = can_fd (app (snd s)) then loop_turn e fds (fst s, drain_can e (snd s))
      else if fd = timer_fd (app (snd s)) then
        (case on_timer e s of None \<Rightarrow> None | Some s' \<Rightarrow> loop_turn e fds s')
      else loop_turn e fds s)"


text \<open>The loops of \<^verbatim>\<open>main\<close>, which end only when a signal has set \<open>stop\<close>, or when \<^verbatim>\<open>epoll_wait\<close> fails other
  than by \<^verbatim>\<open>EINTR\<close>; \<open>None\<close> is a run that never ends.  The input of turn \<open>k\<close> is what the other threads do
  before \<open>stop\<close> is tested, what they do while the main thread waits, and the answer of \<^verbatim>\<open>epoll_wait\<close>.\<close>

datatype epoll_result = EpollIntr | EpollFail | EpollReady "int list"

record turn_input =
  before_test :: "action list"
  while_waiting :: "action list"
  answer :: epoll_result

partial_function (option) main_loop ::
  "env \<Rightarrow> (nat \<Rightarrow> turn_input) \<Rightarrow> nat \<Rightarrow> u64 \<times> world \<Rightarrow> (u64 \<times> world) option" where
  "main_loop e inp k s =
     (let w1 = perform e (before_test (inp k)) (snd s) in
      if stop (app w1) then Some (fst s, w1)
      else
        let w2 = perform e (while_waiting (inp k)) w1 in
        case answer (inp k) of
          EpollIntr \<Rightarrow> main_loop e inp (Suc k) (fst s, w2)
        | EpollFail \<Rightarrow> Some (fst s, w2)
        | EpollReady fds \<Rightarrow>
            (case loop_turn e fds (fst s, w2) of None \<Rightarrow> None | Some s' \<Rightarrow> main_loop e inp (Suc k) s'))"

text \<open>In testing mode the main thread only sleeps.\<close>

partial_function (option) testing_loop ::
  "env \<Rightarrow> (nat \<Rightarrow> turn_input) \<Rightarrow> nat \<Rightarrow> world \<Rightarrow> world option" where
  "testing_loop e inp k w =
     (let w1 = perform e (before_test (inp k)) w in
      if stop (app w1) then Some w1
      else testing_loop e inp (Suc k) (perform e (while_waiting (inp k)) w1))"

text \<open>The world when \<^verbatim>\<open>main\<close> has called \<^verbatim>\<open>app_context_init\<close>, and its start-up: \<open>None\<close> is
  \<^verbatim>\<open>EXIT_FAILURE\<close>, otherwise the time of the first heartbeat.  When the start-up fails no server is running and
  no firing thread exists, so nothing else acts during its shutdown.\<close>

definition initial_world :: "app_config \<Rightarrow> dirent list \<Rightarrow> world" where
  "initial_world cfg d = \<lparr>app = app_context_init cfg, logger = zero_logger, worker = None, dir = d,
     errno = 0, rxq = [], trace = []\<rparr>"

definition main_init :: "env \<Rightarrow> world \<Rightarrow> u64 option \<times> world" where
  "main_init e w =
     (case logger_open e (logging_enabled (config (app w))) (cfg_log_dir (config (app w))) w of (opened, w1) \<Rightarrow>
        if \<not> opened then (None, w1)
        else case init_runtime e w1 of (rc, w2) \<Rightarrow>
          if rc \<noteq> 0 then (None, shutdown_runtime e (\<lambda>_. []) w2)
          else case ws_bridge_start e w2 of (rc2, w3) \<Rightarrow>
            if rc2 \<noteq> 0 then (None, shutdown_runtime e (\<lambda>_. []) w3)
            else case heartbeat_now_ms e w3 of (now, w4) \<Rightarrow> (Some (now + HEARTBEAT_PERIOD_MS), w4))"

section \<open>The heartbeat schedule\<close>

lemma catch_up_spec:
  assumes "unat now + 1000 < 2 ^ 64" and "nxt \<le> now"
  shows "\<exists>r. catch_up nxt now = Some r \<and>
    unat r = unat nxt + 1000 * Suc ((unat now - unat nxt) div 1000)"
  using assms(2)
proof (induction "unat now - unat nxt" arbitrary: nxt rule: less_induct)
  case less
  have le: "unat nxt \<le> unat now" using less.prems by (simp add: word_le_nat_alt)
  then have nxt1: "unat (nxt + HEARTBEAT_PERIOD_MS) = unat nxt + 1000"
    using assms(1) by (simp add: HEARTBEAT_PERIOD_MS_def unat_word_ariths)
  show ?case
  proof (cases "nxt + HEARTBEAT_PERIOD_MS \<le> now")
    case False
    then have "unat now - unat nxt < 1000" using nxt1 by (simp add: word_le_nat_alt)
    then have "(unat now - unat nxt) div 1000 = 0" by simp
    moreover have "catch_up nxt now = Some (nxt + HEARTBEAT_PERIOD_MS)"
      using False by (subst catch_up.simps) simp
    ultimately show ?thesis using nxt1 by simp
  next
    case True
    then have le1: "unat nxt + 1000 \<le> unat now" using nxt1 by (simp add: word_le_nat_alt)
    then have "unat now - unat (nxt + HEARTBEAT_PERIOD_MS) < unat now - unat nxt" using nxt1 by simp
    from less.hyps[OF this True] obtain r where
      r: "catch_up (nxt + HEARTBEAT_PERIOD_MS) now = Some r"
        "unat r = unat nxt + 1000 + 1000 * Suc ((unat now - (unat nxt + 1000)) div 1000)"
      using nxt1 by auto
    have "(unat now - unat nxt) div 1000 = Suc ((unat now - (unat nxt + 1000)) div 1000)"
      using le1 div_add_self2[of 1000 "unat now - (unat nxt + 1000)"] by simp
    moreover have "catch_up nxt now = catch_up (nxt + HEARTBEAT_PERIOD_MS) now"
      using True by (subst catch_up.simps) simp
    ultimately show ?thesis using r by simp
  qed
qed

text \<open>What \<^verbatim>\<open>CLOCK_MONOTONIC\<close> promises here: seconds since boot below \<open>2 ^ 40\<close> and nanoseconds below a
  second.\<close>

definition clock_sane :: "env \<Rightarrow> bool" where
  "clock_sane e \<longleftrightarrow> (\<forall>t. case clock_gettime e t CLOCK_MONOTONIC of (rc, sec, nsec) \<Rightarrow>
     unat sec < 2 ^ 40 \<and> unat nsec < 1000000000)"

lemma heartbeat_now_bound:
  assumes "clock_sane e"
  shows "unat (fst (heartbeat_now_ms e w)) + 1000 < 2 ^ 64"
proof -
  obtain rc sec nsec where c: "clock_gettime e (trace w) CLOCK_MONOTONIC = (rc, sec, nsec)" by (metis prod_cases3)
  with assms have s: "unat sec < 2 ^ 40" and n: "unat nsec < 1000000000"
    unfolding clock_sane_def by (metis (mono_tags, lifting) case_prod_conv)+
  have d: "unat (nsec div 1000000) < 1000" using n by (simp add: unat_div less_mult_imp_div_less)
  have "unat (sec * 1000 + nsec div 1000000) \<le> unat sec * 1000 + unat (nsec div 1000000)"
    by (simp add: unat_word_ariths order_trans [OF mod_less_eq_dividend])
  with s d show ?thesis by (simp add: heartbeat_now_ms_def c Let_def)
qed

lemma on_timer_returns:
  assumes "clock_sane e"
  shows "\<exists>s'. on_timer e s = Some s'"
proof -
  let ?h = "heartbeat_now_ms e (wiggle_process e (snd s))"
  have "\<exists>r. catch_up (fst s) (fst ?h) = Some r" if "fst s \<le> fst ?h"
    using catch_up_spec[OF heartbeat_now_bound [OF assms] that] by blast
  then show ?thesis by (auto simp: on_timer_def Let_def case_prod_beta)
qed

lemma loop_turn_returns:
  assumes "clock_sane e"
  shows "\<exists>s'. loop_turn e fds s = Some s'"
proof (induction fds arbitrary: s)
  case (Cons fd fds)
  obtain s1 where "on_timer e s = Some s1" using on_timer_returns[OF assms] by blast
  then show ?case using Cons.IH by simp
qed simp

section \<open>The event loop keeps the invariant\<close>

lemma length_format_loop [simp]: "length (snd (format_loop cap vs is buf dirty)) = length dirty"
  by (induction cap vs "is" buf dirty rule: format_loop.induct) simp_all

lemma format_dirty_frame [simp]:
  "worker (snd (can_bus_format_dirty cap w)) = worker w" "rxq (snd (can_bus_format_dirty cap w)) = rxq w"
  "trace (snd (can_bus_format_dirty cap w)) = trace w"
  by (simp_all add: can_bus_format_dirty_def case_prod_beta)

text \<open>The part of the context the CAN tables do not belong to.\<close>

definition same_but_tables :: "app_context \<Rightarrow> app_context \<Rightarrow> bool" where
  "same_but_tables a b \<longleftrightarrow> b = a\<lparr>can_values := can_values b, can_dirty := can_dirty b\<rparr>"

lemma same_but_tables_refl [simp]: "same_but_tables a a"
  by (simp add: same_but_tables_def)

lemma same_but_tables_trans [trans]: "same_but_tables a b \<Longrightarrow> same_but_tables b c \<Longrightarrow> same_but_tables a c"
  unfolding same_but_tables_def by (cases a; cases b; cases c) simp

lemma same_but_tablesD:
  assumes "same_but_tables a b"
  shows "config b = config a" "stop b = stop a" "can_fd b = can_fd a" "timer_fd b = timer_fd a"
    "epoll_fd b = epoll_fd a" "ws b = ws a" "clients b = clients a" "state b = state a"
    "wiggles b = wiggles a" "valve b = valve a" "sequence_active b = sequence_active a"
    "sequence_abort b = sequence_abort a"
  by (subst assms [unfolded same_but_tables_def], simp)+

lemma control_inv_tables:
  assumes "control_inv w" and "same_but_tables (app w) (app w')" and "can_tables_ok (app w')"
    and "worker w' = worker w" and "can_tx (trace w') = can_tx (trace w)"
  shows "control_inv w'"
  using assms(1,3-) same_but_tablesD[OF assms(2)]
  by (simp add: control_inv_def hotfire_still_def sequence_ok_def frames_ok_def)

lemma format_dirty_tables:
  "same_but_tables (app w) (app (snd (can_bus_format_dirty cap w)))"
  "can_tables_ok (app w) \<Longrightarrow> can_tables_ok (app (snd (can_bus_format_dirty cap w)))"
  by (simp_all add: can_bus_format_dirty_def case_prod_beta same_but_tables_def can_tables_ok_def)

lemma store_rx_tables:
  "same_but_tables (app w) (app (can_bus_store_rx e f w))"
  "can_tables_ok (app w) \<Longrightarrow> can_tables_ok (app (can_bus_store_rx e f w))"
  "worker (can_bus_store_rx e f w) = worker w"
  "can_tx (trace (can_bus_store_rx e f w)) = can_tx (trace w)"
  "ws_tx (trace (can_bus_store_rx e f w)) = ws_tx (trace w)"
  "sys_log (trace (can_bus_store_rx e f w)) = sys_log (trace w)"
  by (simp_all add: can_bus_store_rx_def Let_def same_but_tables_def can_tables_ok_def)

lemma read_frame_frame [simp]:
  "app (snd (snd (can_bus_read_frame fd w))) = app w"
  "worker (snd (snd (can_bus_read_frame fd w))) = worker w"
  "trace (snd (snd (can_bus_read_frame fd w))) = trace w"
  by (simp_all add: can_bus_read_frame_def split: list.splits can_read_result.splits)

lemma drain_can_tables:
  "same_but_tables (app w) (app (drain_can e w)) \<and>
   (can_tables_ok (app w) \<longrightarrow> can_tables_ok (app (drain_can e w))) \<and>
   worker (drain_can e w) = worker w \<and> can_tx (trace (drain_can e w)) = can_tx (trace w) \<and>
   ws_tx (trace (drain_can e w)) = ws_tx (trace w) \<and> sys_log (trace (drain_can e w)) = sys_log (trace w)"
proof (induction e w rule: drain_can.induct)
  case (1 e w)
  obtain rc f w1 where r: "can_bus_read_frame (can_fd (app w)) w = (rc, f, w1)" by (metis prod_cases3)
  have w1: "app w1 = app w" "worker w1 = worker w" "trace w1 = trace w"
    using read_frame_frame[of "can_fd (app w)" w] r by simp_all
  show ?case
  proof (cases "rc = 1")
    case False
    then show ?thesis using w1 r by (subst (1 2 3 4 5 6) drain_can.simps) simp
  next
    case True
    then have step: "drain_can e w = drain_can e (can_bus_store_rx e (the f) w1)"
      using r by (subst drain_can.simps) simp
    show ?thesis
      using "1.IH"[OF r[symmetric] refl True] store_rx_tables[where w = w1 and e = e and f = "the f"] w1 unfolding step
      by (auto intro: same_but_tables_trans)
  qed
qed

lemma inv_drain: "control_inv w \<Longrightarrow> control_inv (drain_can e w)"
  using drain_can_tables[of w e] control_inv_tables[of w "drain_can e w"] control_invD(4)[of w] by blast

lemma flush_frame:
  "same_but_tables (app w) (app (flush_can_updates e w))"
  "can_tables_ok (app w) \<Longrightarrow> can_tables_ok (app (flush_can_updates e w))"
  "worker (flush_can_updates e w) = worker w"
  "can_tx (trace (flush_can_updates e w)) = can_tx (trace w)"
  "sys_log (trace (flush_can_updates e w)) = sys_log (trace w)"
  using format_dirty_tables[of w 8192] by (simp_all add: flush_can_updates_def case_prod_beta)

lemma inv_flush: "control_inv w \<Longrightarrow> control_inv (flush_can_updates e w)"
  using flush_frame[where w = w and e = e] control_inv_tables[of w "flush_can_updates e w"] control_invD(4)[of w] by blast

lemma heartbeat_send_frame [simp]:
  "app (snd (heartbeat_send e fd w)) = app w" "worker (snd (heartbeat_send e fd w)) = worker w"
  "rxq (snd (heartbeat_send e fd w)) = rxq w" "ws_tx (trace (snd (heartbeat_send e fd w))) = ws_tx (trace w)"
  "sys_log (trace (snd (heartbeat_send e fd w))) = sys_log (trace w)"
  by (simp_all add: heartbeat_send_def)

definition heartbeat_frame :: can_frame where
  "heartbeat_frame = command_frame HEARTBEAT_CAN_ID HEARTBEAT_VALUE 0"

lemma heartbeat_send_tx [tx_simps]:
  "can_tx (trace (snd (heartbeat_send e fd w))) = can_tx (trace w) @ (if fd < 0 then [] else [heartbeat_frame])"
  by (simp add: heartbeat_send_def send_command_tx heartbeat_frame_def HEARTBEAT_CAN_ID_def)

lemma inv_heartbeat_send: "control_inv w \<Longrightarrow> control_inv (snd (heartbeat_send e fd w))"
  using safe_send_command[of w e fd HEARTBEAT_CAN_ID HEARTBEAT_VALUE 0] safe_quiet[OF quiet_errno, of w EINVAL]
  by (simp add: heartbeat_send_def safe_def)

lemma inv_heartbeat_now: "control_inv w \<Longrightarrow> control_inv (snd (heartbeat_now_ms e w))"
  by (rule control_inv_quiet [OF quiet_heartbeat_now])

lemma inv_on_timer: "on_timer e (n, w) = Some (n', w') \<Longrightarrow> control_inv w \<Longrightarrow> control_inv w'"
  using inv_flush[OF inv_heartbeat_send [OF inv_heartbeat_now [OF inv_wiggle_process]]]
    inv_flush[OF inv_heartbeat_now [OF inv_wiggle_process]]
  by (auto simp: on_timer_def Let_def case_prod_beta split: if_splits option.splits)

lemma inv_loop_turn: "loop_turn e fds s = Some s' \<Longrightarrow> control_inv (snd s) \<Longrightarrow> control_inv (snd s')"
proof (induction e fds s rule: loop_turn.induct)
  case (1 e s)
  then show ?case by simp
next
  case (2 e fd fds s)
  have timer: "control_inv (snd s1)" if "on_timer e s = Some s1" for s1
    using that "2.prems"(2) inv_on_timer[of e "fst s" "snd s" "fst s1" "snd s1"] by simp
  show ?case
    using 2 timer inv_drain[of "snd s" e] by (auto split: if_splits option.splits)
qed

text \<open>One expiration of the timer: the wiggle frames of the tick, then the heartbeat if it is due.\<close>

lemma on_timer_tx:
  assumes "on_timer e (n, w) = Some (n', w')"
  shows "can_tx (trace w') = can_tx (trace (wiggle_process e w)) @
      (if n \<le> fst (heartbeat_now_ms e (wiggle_process e w)) \<and> 0 \<le> can_fd (app (wiggle_process e w))
       then [heartbeat_frame] else [])"
  using assms
  by (auto simp: on_timer_def Let_def case_prod_beta heartbeat_send_tx flush_frame split: if_splits option.splits)

section \<open>Start-up and shutdown\<close>

text \<open>Start-up touches only descriptors and the server handle.\<close>

definition same_but_fds :: "world \<Rightarrow> world \<Rightarrow> bool" where
  "same_but_fds w w' \<longleftrightarrow>
     app w' = (app w)\<lparr>epoll_fd := epoll_fd (app w'), timer_fd := timer_fd (app w'),
                    can_fd := can_fd (app w'), ws := ws (app w')\<rparr> \<and>
     worker w' = worker w \<and> can_tx (trace w') = can_tx (trace w)"

lemma same_but_fds_trans [trans]: "same_but_fds u v \<Longrightarrow> same_but_fds v w \<Longrightarrow> same_but_fds u w"
  unfolding same_but_fds_def by (cases "app u"; cases "app v"; cases "app w") simp

lemma same_but_fds_quiet: "quiet w w' \<Longrightarrow> same_but_fds w w'"
  by (simp add: same_but_fds_def quiet_def silent_can_def)

lemma same_but_fds_refl [simp, intro]: "same_but_fds w w"
  by (rule same_but_fds_quiet) simp

lemma same_but_fds_sys: "same_but_fds w w1 \<Longrightarrow> same_but_fds w (snd (sys e op w1))"
  by (rule same_but_fds_trans, assumption, simp add: same_but_fds_def)

lemma same_but_fds_upd:
  "same_but_fds w w1 \<Longrightarrow> same_but_fds w (upd_app (\<lambda>a. a\<lparr>epoll_fd := n\<rparr>) w1)"
  "same_but_fds w w1 \<Longrightarrow> same_but_fds w (upd_app (\<lambda>a. a\<lparr>timer_fd := n\<rparr>) w1)"
  "same_but_fds w w1 \<Longrightarrow> same_but_fds w (upd_app (\<lambda>a. a\<lparr>can_fd := n\<rparr>) w1)"
  "same_but_fds w w1 \<Longrightarrow> same_but_fds w (w1\<lparr>app := (app w1)\<lparr>ws := b\<rparr>\<rparr>)"
  by (rule same_but_fds_trans, assumption, simp add: same_but_fds_def)+

lemmas same_but_fds_intros = same_but_fds_sys same_but_fds_upd same_but_fds_refl

lemma quiet_configure [simp, intro]: "quiet w (snd (can_bus_configure_interface e i b w))"
  by (auto simp: can_bus_configure_interface_def)

lemma can_open_fds: "same_but_fds w (snd (can_bus_open e i w))"
  by (simp add: can_bus_open_def case_prod_beta same_but_fds_def)

lemmas same_but_fds_calls = same_but_fds_intros
  same_but_fds_trans [OF _ can_open_fds]
  same_but_fds_trans [OF _ same_but_fds_quiet [OF quiet_configure]]

lemma init_timer_fds: "same_but_fds w w1 \<Longrightarrow> same_but_fds w (snd (init_timer e w1))"
  unfolding init_timer_def register_fd_def
  by (simp add: Let_def case_prod_beta same_but_fds_calls)

lemma init_epoll_fds: "same_but_fds w w1 \<Longrightarrow> same_but_fds w (snd (init_epoll e w1))"
  unfolding init_epoll_def register_fd_def
  by (simp add: Let_def case_prod_beta same_but_fds_calls init_timer_fds)

lemma init_runtime_fds: "same_but_fds w (snd (init_runtime e w))"
  unfolding init_runtime_def
  by (simp add: Let_def case_prod_beta same_but_fds_calls init_epoll_fds)

lemma can_open_app [simp]: "app (snd (can_bus_open e i w)) = app w"
  by (simp add: can_bus_open_def case_prod_beta)

lemma init_timer_ws: "ws (app (snd (init_timer e w))) = ws (app w)"
  by (simp add: init_timer_def register_fd_def Let_def case_prod_beta)

lemma init_epoll_ws: "ws (app (snd (init_epoll e w))) = ws (app w)"
  by (simp add: init_epoll_def register_fd_def init_timer_ws Let_def case_prod_beta)

lemma init_runtime_ws: "ws (app (snd (init_runtime e w))) = ws (app w)"
  using quietD(1)[OF quiet_configure] by (simp add: init_runtime_def init_epoll_ws Let_def case_prod_beta)

lemma ws_bridge_start_fds: "same_but_fds w (snd (ws_bridge_start e w))"
  by (simp add: ws_bridge_start_def same_but_fds_def case_prod_beta)

lemma close_frame [simp]:
  "app (close_timer e w) = (app w)\<lparr>timer_fd := min (timer_fd (app w)) (-1)\<rparr>"
  "app (close_epoll e w) = (app w)\<lparr>epoll_fd := min (epoll_fd (app w)) (-1)\<rparr>"
  "app (can_bus_close e w) = (app w)\<lparr>can_fd := min (can_fd (app w)) (-1)\<rparr>"
  "worker (close_timer e w) = worker w" "worker (close_epoll e w) = worker w"
  "worker (can_bus_close e w) = worker w"
  "can_tx (trace (close_timer e w)) = can_tx (trace w)" "can_tx (trace (close_epoll e w)) = can_tx (trace w)"
  "can_tx (trace (can_bus_close e w)) = can_tx (trace w)"
  by (simp_all add: close_timer_def close_epoll_def can_bus_close_def min_def)

lemma close_calls:
  "map fst (sys_log (trace (close_timer e w))) = map fst (sys_log (trace w)) @ map SysClose (filter ((\<le>) 0) [timer_fd (app w)])"
  "map fst (sys_log (trace (close_epoll e w))) = map fst (sys_log (trace w)) @ map SysClose (filter ((\<le>) 0) [epoll_fd (app w)])"
  "map fst (sys_log (trace (can_bus_close e w))) = map fst (sys_log (trace w)) @ map SysClose (filter ((\<le>) 0) [can_fd (app w)])"
  by (simp_all add: close_timer_def close_epoll_def can_bus_close_def)

lemma inv_sys: "control_inv w \<Longrightarrow> control_inv (snd (sys e op w))"
  by (simp add: control_inv_def sequence_ok_def frames_ok_def)

lemma inv_close:
  "control_inv w \<Longrightarrow> control_inv (close_timer e w)" "control_inv w \<Longrightarrow> control_inv (close_epoll e w)"
  "control_inv w \<Longrightarrow> control_inv (can_bus_close e w)"
  by (simp_all add: control_inv_def hotfire_still_def can_tables_ok_def sequence_ok_def frames_ok_def)

lemma handles_close:
  "handles (app (close_timer e w)) =
     (config (app w), (min (timer_fd (app w)) (-1), epoll_fd (app w), can_fd (app w)), ws (app w))"
  "handles (app (close_epoll e w)) =
     (config (app w), (timer_fd (app w), min (epoll_fd (app w)) (-1), can_fd (app w)), ws (app w))"
  "handles (app (can_bus_close e w)) =
     (config (app w), (timer_fd (app w), epoll_fd (app w), min (can_fd (app w)) (-1)), ws (app w))"
  by (simp_all add: handles_def)

lemma ws_bridge_stop_ok:
  assumes "control_inv w"
  shows "control_inv (ws_bridge_stop e others w)"
    and "handles (app (ws_bridge_stop e others w)) =
      (config (app w), (timer_fd (app w), epoll_fd (app w), can_fd (app w)), False)"
    and "ws (app w) \<Longrightarrow> clients (app (ws_bridge_stop e others w)) = []"
    and "map fst (sys_log (trace (ws_bridge_stop e others w))) = map fst (sys_log (trace w)) @
      (if ws (app w) then [SysWsStop, SysWsJoin, SysWsDestroy] else [])"
proof -
  let ?w1 = "perform e (others 0) (snd (sys e SysWsStop w))"
  let ?w2 = "perform e (others 1) (snd (sys e SysWsJoin ?w1))"
  have 1: "control_inv ?w1" by (intro inv_perform inv_sys assms)
  have 2: "control_inv ?w2" by (intro inv_perform inv_sys 1)
  note h1 = perform_handles[OF inv_sys [OF assms], of e "others 0" e SysWsStop]
  note h2 = perform_handles[OF inv_sys [OF 1], of e "others 1" e SysWsJoin]
  have hd: "handles (app ?w2) = handles (app w)" using h1 h2 by simp
  have calls: "map fst (sys_log (trace ?w2)) = map fst (sys_log (trace w)) @ [SysWsStop, SysWsJoin]"
    using h1 h2 by simp
  show "control_inv (ws_bridge_stop e others w)"
    using 2 assms
    by (simp add: ws_bridge_stop_def Let_def control_inv_def hotfire_still_def can_tables_ok_def sequence_ok_def frames_ok_def)
  show "handles (app (ws_bridge_stop e others w)) =
      (config (app w), (timer_fd (app w), epoll_fd (app w), can_fd (app w)), False)"
    using handlesD[OF hd] by (simp add: ws_bridge_stop_def Let_def handles_def)
  show "ws (app w) \<Longrightarrow> clients (app (ws_bridge_stop e others w)) = []"
    by (simp add: ws_bridge_stop_def Let_def)
  show "map fst (sys_log (trace (ws_bridge_stop e others w))) = map fst (sys_log (trace w)) @
      (if ws (app w) then [SysWsStop, SysWsJoin, SysWsDestroy] else [])"
    using calls by (simp add: ws_bridge_stop_def Let_def)
qed

lemma logger_closed: "fp (logger (logger_close e w)) = None"
  by (simp add: logger_close_def set_logger_def split: option.splits)

text \<open>Once the server is gone no callback runs: the client list and the wiggles stay as they are.\<close>

lemma offline_action:
  assumes "\<not> ws (app w)"
  shows "handles (app (do_action e a w)) = handles (app w) \<and> clients (app (do_action e a w)) = clients (app w) \<and>
    wiggles (app (do_action e a w)) = wiggles (app w)"
proof (cases a)
  case ActThread
  then show ?thesis
    by (simp add: handles_def worker_step_def finish_sequence_def Let_def case_prod_beta
        split: option.splits worker_pc.splits)
qed (use assms in \<open>simp_all add: handles_def on_signal_def\<close>)

lemma offline_perform:
  assumes "\<not> ws (app w)"
  shows "handles (app (perform e as w)) = handles (app w) \<and> clients (app (perform e as w)) = clients (app w) \<and>
    wiggles (app (perform e as w)) = wiggles (app w)"
  using assms
proof (induction "as" arbitrary: w)
  case (Cons a as)
  note o = offline_action[OF Cons.prems, of e a]
  then have "\<not> ws (app (do_action e a w))" using Cons.prems handlesD(5)[of "app (do_action e a w)" "app w"] by simp
  from Cons.IH[OF this] o show ?case by simp
qed simp

text \<open>The shutdown up to the end of the server.\<close>

definition shut_server :: "env \<Rightarrow> (nat \<Rightarrow> action list) \<Rightarrow> world \<Rightarrow> world" where
  "shut_server e others w =
     ws_bridge_stop e (\<lambda>k. others (k + 2)) (perform e (others 1) (wiggle_stop_all e True
       (perform e (others 0) (firing_sequence_request_abort w))))"

lemma inv_shut_server:
  assumes "control_inv w"
  shows "control_inv (shut_server e others w)"
    and "handles (app (shut_server e others w)) =
      (config (app w), (timer_fd (app w), epoll_fd (app w), can_fd (app w)), False)"
    and "ws (app w) \<Longrightarrow> clients (app (shut_server e others w)) = []"
    and "map fst (sys_log (trace (shut_server e others w))) = map fst (sys_log (trace w)) @
      (if ws (app w) then [SysWsStop, SysWsJoin, SysWsDestroy] else [])"
proof -
  let ?v = "firing_sequence_request_abort w"
  let ?w1 = "perform e (others 0) ?v"
  let ?w2 = "wiggle_stop_all e True ?w1" let ?w3 = "perform e (others 1) ?w2"
  have 0: "control_inv ?v" by (rule inv_request_abort [OF assms])
  have 1: "control_inv ?w1" by (rule inv_perform [OF 0])
  have 2: "control_inv ?w2" by (rule inv_stop_all [OF 1])
  have 3: "control_inv ?w3" by (rule inv_perform [OF 2])
  have h: "handles (app ?v) = handles (app w)" "sys_log (trace ?v) = sys_log (trace w)"
    by (simp_all add: firing_sequence_request_abort_def handles_def)
  have s: "handles (app ?w2) = handles (app ?w1)" "sys_log (trace ?w2) = sys_log (trace ?w1)"
    by (simp_all add: wiggle_stop_all_ok [OF control_invD(1) [OF 1]] handles_def)
  have hd: "handles (app ?w3) = handles (app w)" and calls: "sys_log (trace ?w3) = sys_log (trace w)"
    using perform_handles[OF 0, of e "others 0"] perform_handles[OF 2, of e "others 1"] h s by simp_all
  note k = ws_bridge_stop_ok[OF 3, of e "\<lambda>k. others (k + 2)"]
  show "control_inv (shut_server e others w)" using k(1) by (simp add: shut_server_def)
  show "handles (app (shut_server e others w)) =
      (config (app w), (timer_fd (app w), epoll_fd (app w), can_fd (app w)), False)"
    using k(2) handlesD[OF hd] by (simp add: shut_server_def)
  show "ws (app w) \<Longrightarrow> clients (app (shut_server e others w)) = []"
    using k(3) handlesD(5)[OF hd] by (simp add: shut_server_def)
  show "map fst (sys_log (trace (shut_server e others w))) = map fst (sys_log (trace w)) @
      (if ws (app w) then [SysWsStop, SysWsJoin, SysWsDestroy] else [])"
    using k(4) handlesD(5)[OF hd] calls by (simp add: shut_server_def)
qed

text \<open>The rest of it: the configuration, the descriptors, the clients, the wiggles and the calls made so far.\<close>

definition shut_state ::
  "app_config \<Rightarrow> int \<times> int \<times> int \<Rightarrow> app_client_ctx list \<Rightarrow> wiggle_command list \<Rightarrow> sys_op list \<Rightarrow> world \<Rightarrow> bool" where
  "shut_state cfg fds cs t calls w \<longleftrightarrow> control_inv w \<and> handles (app w) = (cfg, fds, False) \<and>
     clients (app w) = cs \<and> wiggles (app w) = t \<and> map fst (sys_log (trace w)) = calls"

lemma shut_perform: "shut_state cfg fds cs t calls w \<Longrightarrow> shut_state cfg fds cs t calls (perform e as w)"
  using offline_perform[of w e "as"] perform_handles[of w e "as"] inv_perform[of w e "as"]
  by (simp add: shut_state_def handles_def)

lemma shut_close:
  "shut_state cfg (a, b, c) cs t calls w \<Longrightarrow>
   shut_state cfg (min a (-1), b, c) cs t (calls @ map SysClose (filter ((\<le>) 0) [a])) (close_timer e w)"
  "shut_state cfg (a, b, c) cs t calls w \<Longrightarrow>
   shut_state cfg (a, min b (-1), c) cs t (calls @ map SysClose (filter ((\<le>) 0) [b])) (close_epoll e w)"
  "shut_state cfg (a, b, c) cs t calls w \<Longrightarrow>
   shut_state cfg (a, b, min c (-1)) cs t (calls @ map SysClose (filter ((\<le>) 0) [c])) (can_bus_close e w)"
  unfolding shut_state_def close_calls handles_close by (auto simp: inv_close handles_def)

lemma shutdown_state:
  assumes "control_inv w"
  shows "shut_state (config (app w)) (min (timer_fd (app w)) (-1), min (epoll_fd (app w)) (-1), min (can_fd (app w)) (-1))
    (clients (app (shut_server e others w))) (wiggles (app (shut_server e others w)))
    (map fst (sys_log (trace w)) @ (if ws (app w) then [SysWsStop, SysWsJoin, SysWsDestroy] else [])
      @ map SysClose (filter ((\<le>) 0) [timer_fd (app w), epoll_fd (app w), can_fd (app w)]))
    (shutdown_runtime e others w)"
proof -
  let ?S = "shut_server e others w" let ?cfg = "config (app w)"
  let ?c = "map fst (sys_log (trace w)) @ (if ws (app w) then [SysWsStop, SysWsJoin, SysWsDestroy] else [])"
  let ?a = "timer_fd (app w)" let ?b = "epoll_fd (app w)" let ?f = "can_fd (app w)"
  let ?close = "\<lambda>fd. map SysClose (filter ((\<le>) 0) [fd])"
  let ?st = "\<lambda>fds. shut_state ?cfg fds (clients (app ?S)) (wiggles (app ?S))"
  let ?T = "close_timer e (perform e (others 4) ?S)" let ?E = "close_epoll e (perform e (others 5) ?T)"
  let ?C = "can_bus_close e (perform e (others 6) ?E)"
  have "?st (?a, ?b, ?f) ?c ?S" using inv_shut_server[OF assms, of e others] by (simp add: shut_state_def)
  then have "?st (min ?a (-1), ?b, ?f) (?c @ ?close ?a) ?T" by (rule shut_close(1) [OF shut_perform])
  then have "?st (min ?a (-1), min ?b (-1), ?f) ((?c @ ?close ?a) @ ?close ?b) ?E" by (rule shut_close(2) [OF shut_perform])
  then have "?st (min ?a (-1), min ?b (-1), min ?f (-1)) (((?c @ ?close ?a) @ ?close ?b) @ ?close ?f) (perform e (others 7) ?C)"
    by (rule shut_perform [OF shut_close(3) [OF shut_perform]])
  moreover have "shutdown_runtime e others w = logger_close e (perform e (others 7) ?C)"
    by (simp add: shutdown_runtime_def Let_def shut_server_def)
  ultimately show ?thesis
    by (simp add: shut_state_def control_inv_quiet [OF quiet_logger_close])
qed

text \<open>Without a message after \<^verbatim>\<open>wiggle_stop_all\<close> the wiggles stay stopped.\<close>

definition no_message :: "action list \<Rightarrow> bool" where
  "no_message as \<longleftrightarrow> (\<forall>c f. ActMessage c f \<notin> set as)"

lemma no_message_wiggles: "no_message as \<Longrightarrow> wiggles (app (perform e as w)) = wiggles (app w)"
proof (induction "as" arbitrary: w)
  case (Cons a as)
  have "\<forall>c f. a \<noteq> ActMessage c f" using Cons.prems by (auto simp: no_message_def)
  then have "wiggles (app (do_action e a w)) = wiggles (app w)"
    by (cases a) (simp_all add: on_connect_def on_disconnect_def on_signal_def worker_step_def
        finish_sequence_def Let_def case_prod_beta split: option.splits worker_pc.splits)
  then show ?case using Cons by (simp add: no_message_def)
qed simp

lemma shut_server_wiggles:
  assumes "control_inv w" and "\<forall>k \<in> {1, 2, 3}. no_message (others k)"
  shows "wiggles (app (shut_server e others w)) = replicate APP_MAX_WIGGLES zero_wiggle"
proof -
  let ?w = "perform e (others 0) (firing_sequence_request_abort w)"
  have "control_inv ?w" by (intro inv_perform inv_request_abort assms(1))
  from wiggle_stop_all_ok[OF control_invD(1) [OF this], of e True] assms(2) show ?thesis
    by (simp add: shut_server_def ws_bridge_stop_def Let_def no_message_wiggles numeral_3_eq_3 numeral_2_eq_2)
qed

text \<open>When nothing else runs.\<close>

lemma shutdown_alone:
  "worker (shutdown_runtime e (\<lambda>_. []) w) = worker w"
  "can_tx (trace (shutdown_runtime e (\<lambda>_. []) w)) = can_tx (trace (wiggle_stop_all e True (firing_sequence_request_abort w)))"
  by (simp_all add: shutdown_runtime_def ws_bridge_stop_def Let_def firing_sequence_request_abort_def)

lemma shutdown_alone_tx:
  assumes "wiggles_ok (wiggles (app w))" and "0 \<le> can_fd (app w)"
  shows "can_tx (trace (shutdown_runtime e (\<lambda>_. []) w)) = can_tx (trace w) @ map exit_frame (filter active (wiggles (app w)))"
proof -
  let ?w = "firing_sequence_request_abort w"
  have "can_tx (trace (wiggle_stop_all e True ?w)) = can_tx (trace ?w) @ map exit_frame (filter active (wiggles (app ?w)))"
    using assms by (intro wiggle_stop_all_tx)
      (simp_all add: wiggles_ok_def slot_ok_addressable firing_sequence_request_abort_def)
  then show ?thesis by (simp add: shutdown_alone firing_sequence_request_abort_def)
qed

lemma shutdown_alone_abort:
  assumes "wiggles_ok (wiggles (app w))"
  shows "sequence_abort (app (shutdown_runtime e (\<lambda>_. []) w))"
  using assms
  by (simp add: shutdown_runtime_def ws_bridge_stop_def Let_def wiggle_stop_all_ok firing_sequence_request_abort_def)

text \<open>Once the CAN socket is closed, a firing thread that is still alive sends nothing more.\<close>

lemma send_attempts_closed: "can_fd (app w) < 0 \<Longrightarrow> can_tx (trace (snd (send_attempts e n i v d w))) = can_tx (trace w)"
  by (induction n arbitrary: w) (auto simp: case_prod_beta send_command_tx)

lemma worker_after_close:
  assumes "can_fd (app w) < 0"
  shows "can_tx (trace (worker_step e w)) = can_tx (trace w)"
  using assms
  by (simp add: worker_step_def send_block_def finish_sequence_def send_attempts_closed Let_def case_prod_beta
      split: option.splits worker_pc.splits)

section \<open>Properties\<close>

lemma still_clock_sane: "clock_sane still_env"
  by (simp add: clock_sane_def still_env_def)

lemma catch_up_after:
  assumes "unat now + 1000 < 2 ^ 64" and "nxt \<le> now"
  shows "\<exists>r. catch_up nxt now = Some r \<and> now < r \<and> unat r \<le> unat now + 1000"
proof -
  obtain r where r: "catch_up nxt now = Some r" "unat r = unat nxt + 1000 * Suc ((unat now - unat nxt) div 1000)"
    using catch_up_spec[OF assms] by blast
  have le: "unat nxt \<le> unat now" using assms(2) by (simp add: word_le_nat_alt)
  let ?d = "unat now - unat nxt"
  have "1000 * (?d div 1000) + ?d mod 1000 = ?d" "?d mod 1000 < 1000" by simp_all
  then have "unat now < unat r" and "unat r \<le> unat now + 1000"
    using r(2) le unfolding mult_Suc_right by linarith+
  then show ?thesis using r(1) by (auto simp: word_less_nat_alt)
qed

text \<open>C27.  The heartbeat schedule catches up: after a delay of any length the loop ends with the first
  multiple of the period, counted from the missed time, that lies after now, hence within one second of
  it; missed beats are skipped, not sent in a burst.\<close>

theorem heartbeat_catch_up:
  assumes "unat now + 1000 < 2 ^ 64" and "nxt \<le> now"
  shows "\<exists>r. catch_up nxt now = Some r \<and> now < r \<and> unat r \<le> unat now + 1000 \<and>
    unat r = unat nxt + 1000 * Suc ((unat now - unat nxt) div 1000)"
  using catch_up_spec[OF assms] catch_up_after[OF assms] by auto

theorem heartbeat_catch_up_witness:
  "\<exists>r. catch_up 1000 5500 = Some r \<and> unat r = 6000"
  using heartbeat_catch_up[of 5500 1000] by auto

text \<open>C29.  One expiration of the timer in PRECHILLING: the frames of the wiggles that are due or have
  run out, then one heartbeat frame exactly when its time has come; the next heartbeat is then due within
  the second after now, and otherwise keeps its time.\<close>

theorem timer_tick:
  assumes "clock_sane e" and "wiggles_ok (wiggles (app w))" and "state (app w) = APP_STATE_PRECHILLING"
    and "0 \<le> can_fd (app w)" and "now = fst (heartbeat_now_ms e (wiggle_process e w))"
  shows "\<exists>n' w'. on_timer e (n, w) = Some (n', w') \<and>
    can_tx (trace w') = can_tx (trace w) @ concat (map (slot_out (fst (monotonic_ms e w))) (wiggles (app w)))
      @ (if n \<le> now then [heartbeat_frame] else []) \<and>
    (if n \<le> now then now < n' \<and> unat n' \<le> unat now + 1000 else n' = n)"
proof -
  obtain n' w' where t: "on_timer e (n, w) = Some (n', w')" using on_timer_returns[OF assms(1), of "(n, w)"] by auto
  have len: "length (wiggles (app w)) = APP_MAX_WIGGLES" and adr: "list_all slot_addressable (wiggles (app w))"
    using assms(2) by (simp_all add: wiggles_ok_def slot_ok_addressable)
  have fd: "can_fd (app (wiggle_process e w)) = can_fd (app w)"
    by (subst wiggle_process_ok(2) [OF assms(2)]) simp
  have tx: "can_tx (trace w') = can_tx (trace w) @ concat (map (slot_out (fst (monotonic_ms e w))) (wiggles (app w)))
      @ (if n \<le> now then [heartbeat_frame] else [])"
    using on_timer_tx[OF t] wiggle_process_tx[OF len assms(3,4) adr, of e] fd assms(4,5) by simp
  have "n \<le> now \<Longrightarrow> \<exists>r. catch_up n now = Some r \<and> now < r \<and> unat r \<le> unat now + 1000"
    using catch_up_after[OF heartbeat_now_bound [OF assms(1)]] assms(5) by blast
  then have "if n \<le> now then now < n' \<and> unat n' \<le> unat now + 1000 else n' = n"
    using t assms(5) by (auto simp: on_timer_def Let_def case_prod_beta split: if_splits option.splits)
  with t tx show ?thesis by blast
qed

theorem timer_tick_witness:
  "\<exists>n' w'. on_timer still_env (6500, sample_world) = Some (n', w') \<and> can_tx (trace w') = [heartbeat_frame]"
proof -
  have now: "7000 = fst (heartbeat_now_ms still_env (wiggle_process still_env sample_world))"
    by (simp add: heartbeat_now_ms_def still_env_def)
  have none: "concat (map (slot_out t) (wiggles (app sample_world))) = []" for t
    by (simp add: sample_simps slot_out_def)
  have pre: "state (app sample_world) = APP_STATE_PRECHILLING" "0 \<le> can_fd (app sample_world)" "trace sample_world = []"
    by (simp_all add: sample_simps)
  from timer_tick[OF still_clock_sane sample_world_ok pre(1,2) now, of 6500] show ?thesis
    unfolding none pre(3) by auto
qed

text \<open>C30.  The shutdown releases everything the program holds, whatever the other threads do meanwhile: the
  server is stopped, joined and destroyed, then each open descriptor (timer, epoll, CAN socket) is closed, and
  no other call of this kind is made; the handles are reset, the client list is empty and the log file closed.
  The wiggle table ends empty if no message arrives between stopping the wiggles and joining the server.  When
  nothing else runs, every active wiggle has sent its exit value, an abort of the firing sequence is
  requested, and the firing thread, which the shutdown does not wait for, is still there if it was before.\<close>

theorem shutdown_releases:
  assumes "control_inv w" and "ws (app w)" and "w' = shutdown_runtime e others w"
  shows "map fst (sys_log (trace w')) = map fst (sys_log (trace w)) @ [SysWsStop, SysWsJoin, SysWsDestroy] @
      map SysClose (filter (\<lambda>fd. 0 \<le> fd) [timer_fd (app w), epoll_fd (app w), can_fd (app w)]) \<and>
    timer_fd (app w') < 0 \<and> epoll_fd (app w') < 0 \<and> can_fd (app w') < 0 \<and> \<not> ws (app w') \<and>
    clients (app w') = [] \<and> fp (logger w') = None \<and>
    ((\<forall>k \<in> {1, 2, 3}. no_message (others k)) \<longrightarrow> wiggles (app w') = replicate APP_MAX_WIGGLES zero_wiggle) \<and>
    (others = (\<lambda>_. []) \<longrightarrow> sequence_abort (app w') \<and> worker w' = worker w \<and>
      (0 \<le> can_fd (app w) \<longrightarrow>
        can_tx (trace w') = can_tx (trace w) @ map exit_frame (filter active (wiggles (app w)))))"
proof -
  have t: "wiggles_ok (wiggles (app w))" by (rule control_invD(1) [OF assms(1)])
  have "shut_state (config (app w)) (min (timer_fd (app w)) (-1), min (epoll_fd (app w)) (-1), min (can_fd (app w)) (-1))
    [] (wiggles (app (shut_server e others w)))
    (map fst (sys_log (trace w)) @ [SysWsStop, SysWsJoin, SysWsDestroy] @
      map SysClose (filter (\<lambda>fd. 0 \<le> fd) [timer_fd (app w), epoll_fd (app w), can_fd (app w)])) w'"
    using shutdown_state[OF assms(1), of e others] inv_shut_server(3)[OF assms(1,2)] assms(2,3) by simp
  moreover have "fp (logger w') = None" by (simp add: assms(3) shutdown_runtime_def Let_def logger_closed)
  moreover have "others = (\<lambda>_. []) \<Longrightarrow> sequence_abort (app w') \<and> worker w' = worker w \<and>
      (0 \<le> can_fd (app w) \<longrightarrow> can_tx (trace w') = can_tx (trace w) @ map exit_frame (filter active (wiggles (app w))))"
    using shutdown_alone_tx[OF t, of e] shutdown_alone(1)[of e w] shutdown_alone_abort[OF t, of e] assms(3) by simp
  ultimately show ?thesis
    using shut_server_wiggles[OF assms(1), of others e] by (auto simp: shut_state_def handles_def)
qed

theorem shutdown_releases_witness:
  "map fst (sys_log (trace (shutdown_runtime sample_env (\<lambda>k. [ActThread, ActDisconnect k]) sample_world)))
    = [SysWsStop, SysWsJoin, SysWsDestroy, SysClose 5, SysClose 4, SysClose 3]"
  using shutdown_releases[OF sample_inv(1) _ refl, of sample_env "\<lambda>k. [ActThread, ActDisconnect k]"]
  by (simp add: sample_world_def app_context_init_def)

text \<open>After the shutdown the descriptor of the bus is gone for good.\<close>

lemma shutdown_can_fd: "can_fd (app (shutdown_runtime e others w)) < 0"
proof -
  define v where "v = perform e (others 6) (close_epoll e (perform e (others 5) (close_timer e
    (perform e (others 4) (shut_server e others w)))))"
  have eq: "shutdown_runtime e others w = logger_close e (perform e (others 7) (can_bus_close e v))"
    by (simp add: shutdown_runtime_def Let_def v_def shut_server_def)
  have keep: "\<not> ws (app u) \<Longrightarrow> \<not> ws (app (perform e as u))" for u as
    using offline_perform[of u e "as"] handlesD(5)[of "app (perform e as u)" "app u"] by simp
  have "\<not> ws (app (shut_server e others w))" by (simp add: shut_server_def ws_bridge_stop_def Let_def)
  then have "\<not> ws (app v)" unfolding v_def by (intro keep) (simp add: keep)
  then have "handles (app (perform e (others 7) (can_bus_close e v))) = handles (app (can_bus_close e v))"
    using offline_perform[of "can_bus_close e v" e "others 7"] by simp
  from handlesD(4)[OF this] show ?thesis unfolding eq by simp
qed

lemma shutdown_offline: "\<not> ws (app (shutdown_runtime e others w))"
proof -
  have keep: "\<not> ws (app u) \<Longrightarrow> \<not> ws (app (perform e as u))" for u as
    using offline_perform[of u e "as"] handlesD(5)[of "app (perform e as u)" "app u"] by simp
  have "\<not> ws (app (shut_server e others w))" by (simp add: shut_server_def ws_bridge_stop_def Let_def)
  then show ?thesis unfolding shutdown_runtime_def by (simp add: Let_def keep shut_server_def)
qed

lemma perform_closed:
  "can_fd (app w) < 0 \<Longrightarrow> \<not> ws (app w) \<Longrightarrow> can_tx (trace (perform e as w)) = can_tx (trace w)"
proof (induction "as" arbitrary: w)
  case (Cons a as)
  have "can_tx (trace (do_action e a w)) = can_tx (trace w)"
    using Cons.prems worker_after_close[of w e] by (cases a) (simp_all add: on_signal_def)
  moreover have "can_fd (app (do_action e a w)) < 0" "\<not> ws (app (do_action e a w))"
    using offline_action[OF Cons.prems(2), of e a] Cons.prems handlesD(4,5)[of "app (do_action e a w)" "app w"] by simp_all
  ultimately show ?case using Cons.IH by simp
qed simp

lemma run_perform: "run e m w = perform e (replicate m ActThread) w"
  by (induction m arbitrary: w) simp_all

text \<open>C31.  Nothing reaches the bus after the shutdown, whatever happened during it: however long a firing
  thread that is still alive keeps running, it sends no further frame, and no other activity does.\<close>

theorem closed_bus_silent:
  "can_tx (trace (run e m (shutdown_runtime e others w))) = can_tx (trace (shutdown_runtime e others w)) \<and>
   can_tx (trace (perform e acts (shutdown_runtime e others w))) = can_tx (trace (shutdown_runtime e others w))"
  using perform_closed[OF shutdown_can_fd shutdown_offline] by (simp add: run_perform)

end
