(* ===== verification/System.thy ===== *)
theory System
  imports MainLoop
begin

text \<open>
  The program as a transition system: after a successful start-up the WebSocket callbacks, the turns
  of the event loop and the statements of the firing thread interleave, while frames arrive on the
  CAN socket and a signal may ask for the shutdown.  A state is the time of the next heartbeat and
  the world.  Each callback and each turn is one step: the C code runs them on the server's thread
  and the main thread, and the mutexes of the context serialise their accesses to shared fields.
\<close>

type_synonym sys_state = "u64 \<times> world"

definition started :: "env \<Rightarrow> app_config \<Rightarrow> dirent list \<Rightarrow> sys_state \<Rightarrow> bool" where
  "started e cfg d s \<longleftrightarrow> main_init e (initial_world cfg d) = (Some (fst s), snd s)"

inductive sys_step :: "env \<Rightarrow> sys_state \<Rightarrow> sys_state \<Rightarrow> bool" for e :: env where
  Connect: "ws (app w) \<Longrightarrow> sys_step e (n, w) (n, on_connect e c w)"
| Disconnect: "ws (app w) \<Longrightarrow> sys_step e (n, w) (n, on_disconnect e c w)"
| Message: "ws (app w) \<Longrightarrow> sys_step e (n, w) (n, on_message e c f w)"
| Thread: "sys_step e (n, w) (n, worker_step e w)"
| Turn: "\<not> testing_mode (config (app w)) \<Longrightarrow> \<not> stop (app w) \<Longrightarrow> loop_turn e fds (n, w) = Some s \<Longrightarrow>
    sys_step e (n, w) s"
| Arrive: "sys_step e (n, w) (n, w\<lparr>rxq := rxq w @ q\<rparr>)"
| Signal: "sys_step e (n, w) (n, on_signal w)"

inductive_cases sys_stepE: "sys_step e s s'"

inductive_simps sys_step_simp: "sys_step e (n, w) (n', w')"

abbreviation reachable :: "env \<Rightarrow> app_config \<Rightarrow> dirent list \<Rightarrow> sys_state \<Rightarrow> bool" where
  "reachable e cfg d \<equiv> reach (started e cfg d) (sys_step e)"

section \<open>The control invariant on every reachable state\<close>

lemma inv_initial_world: "control_inv (initial_world cfg d)"
  by (simp add: control_inv_def initial_world_def app_context_init_def wiggles_ok_init hotfire_still_def
      valve_ok_def default_valve_def can_tables_ok_def sequence_ok_def frames_ok_def)

lemma control_inv_fds: "same_but_fds w w' \<Longrightarrow> control_inv w \<Longrightarrow> control_inv w'"
proof -
  assume s: "same_but_fds w w'" and inv: "control_inv w"
  let ?a = "(app w)\<lparr>epoll_fd := epoll_fd (app w'), timer_fd := timer_fd (app w'),
                    can_fd := can_fd (app w'), ws := ws (app w')\<rparr>"
  from s have a: "app w' = ?a" and k: "worker w' = worker w" "can_tx (trace w') = can_tx (trace w)"
    unfolding same_but_fds_def by blast+
  have "control_inv w \<Longrightarrow> control_inv (w'\<lparr>app := ?a\<rparr>)"
    using k by (simp add: control_inv_def hotfire_still_def can_tables_ok_def sequence_ok_def frames_ok_def)
  moreover have "w'\<lparr>app := ?a\<rparr> = w'" using a by (cases w') simp
  ultimately show ?thesis using inv by simp
qed

lemma main_init_fds:
  assumes "main_init e w = (Some n, w')"
  shows "same_but_fds w w'"
proof -
  let ?w1 = "snd (logger_open e (logging_enabled (config (app w))) (cfg_log_dir (config (app w))) w)"
  have "same_but_fds w ?w1" by (rule same_but_fds_quiet) blast
  also have "same_but_fds ?w1 (snd (init_runtime e ?w1))" by (rule init_runtime_fds)
  also have "same_but_fds \<dots> (snd (ws_bridge_start e \<dots>))" by (rule ws_bridge_start_fds)
  also have "same_but_fds \<dots> (snd (heartbeat_now_ms e \<dots>))" by (rule same_but_fds_quiet) blast
  finally show ?thesis
    using assms by (auto simp: main_init_def case_prod_beta split: if_splits)
qed

lemma inv_sys_step: "sys_step e s s' \<Longrightarrow> control_inv (snd s) \<Longrightarrow> control_inv (snd s')"
  by (erule sys_stepE) (auto simp: inv_steps dest: inv_loop_turn)

interpretation ctl: inductive_invariant "started e cfg d" "sys_step e" "\<lambda>_. True" "\<lambda>s. control_inv (snd s)"
  for e cfg d
proof unfold_locales
  show "control_inv (snd s)" if "started e cfg d s" for s
    using that control_inv_fds[OF main_init_fds inv_initial_world] by (simp add: started_def)
qed (auto intro: inv_sys_step)

section \<open>Read-only and testing mode\<close>

text \<open>A step that changes at most the client list.\<close>

definition only_clients :: "world \<Rightarrow> world \<Rightarrow> bool" where
  "only_clients w w' \<longleftrightarrow> app w' = (app w)\<lparr>clients := clients (app w')\<rparr> \<and> worker w' = worker w \<and>
     can_tx (trace w') = can_tx (trace w)"

lemma only_clients_silent: "silent_can w w' \<Longrightarrow> only_clients w w'"
  by (simp add: only_clients_def silent_can_def)

lemma only_clients_trans [trans]: "only_clients u v \<Longrightarrow> only_clients v w \<Longrightarrow> only_clients u w"
  unfolding only_clients_def by (cases "app u"; cases "app v"; cases "app w") simp

lemma only_clients_connect: "only_clients w (on_connect e c w)"
  by (simp add: on_connect_def Let_def only_clients_def split: option.splits)

lemma only_clients_disconnect: "only_clients w (on_disconnect e c w)"
  by (simp add: on_disconnect_def Let_def only_clients_def)

lemma only_clients_read_toggle: "only_clients w (snd (handle_read_toggle e c t w))"
  by (simp add: handle_read_toggle_def set_write_only_def only_clients_def split: option.splits)

text \<open>In testing and in read-only mode a message changes no control state and sends no frame.\<close>

definition muted :: "app_config \<Rightarrow> bool" where
  "muted cfg \<longleftrightarrow> testing_mode cfg \<or> read_only cfg"

lemma only_clients_command:
  assumes "muted (config (app w))"
  shows "only_clients w (command_handle_text e c t w)"
proof (cases "fst (handle_read_toggle e c t w)")
  case True
  then show ?thesis
    using only_clients_read_toggle[of w e c t]
    by (simp add: command_handle_text_def read_toggle.or_else_taken)
next
  case False
  then show ?thesis
    using assms silent_testing_command[of w]
    by (auto simp: command_handle_text_def read_toggle.or_else_declined muted_def Let_def
        intro!: only_clients_silent)
qed

lemma only_clients_message:
  assumes "muted (config (app w))"
  shows "only_clients w (on_message e c f w)"
proof -
  let ?w1 = "log_event (EvAlloc True) w" and ?t = "c_str (payload f)"
  let ?w2 = "logger_write e ''WS_RX'' ?t ?w1"
  have "only_clients w ?w1" by (rule only_clients_silent [OF quiet_silent [OF quiet_copy_event]])
  also have "only_clients ?w1 ?w2" by (rule only_clients_silent [OF quiet_silent]) blast
  also have "only_clients ?w2 (command_handle_text e c ?t ?w2)"
    using assms by (intro only_clients_command) simp
  finally have cmd: "only_clients w (command_handle_text e c ?t ?w2)" .
  then show ?thesis
    by (auto simp: on_message_def Let_def intro!: only_clients_silent) (simp_all add: silent_can_def)
qed

text \<open>What holds then: no firing thread, no wiggle, the initial state; no CAN frame at all in testing
  mode, and nothing but heartbeats otherwise.\<close>

definition passive_inv :: "world \<Rightarrow> bool" where
  "passive_inv w \<longleftrightarrow> (muted (config (app w)) \<longrightarrow>
     worker w = None \<and> state (app w) = APP_STATE_PRECHILLING \<and>
     wiggles (app w) = replicate APP_MAX_WIGGLES zero_wiggle \<and>
     set (can_tx (trace w)) \<subseteq> {heartbeat_frame} \<and>
     (testing_mode (config (app w)) \<longrightarrow> can_tx (trace w) = []))"

lemma passive_only_clients:
  assumes "only_clients w w'" and "passive_inv w"
  shows "passive_inv w'"
proof -
  from assms(1) obtain cs where "app w' = (app w)\<lparr>clients := cs\<rparr>" unfolding only_clients_def by blast
  with assms show ?thesis by (simp add: passive_inv_def only_clients_def)
qed

lemma process_loop_idle: "\<forall>k \<in> set ks. \<not> active (slot_at k w) \<Longrightarrow> process_loop e now ks w = w"
  by (induction ks) (simp_all add: process_slot_def)

lemma process_idle:
  assumes "wiggles (app w) = replicate APP_MAX_WIGGLES zero_wiggle"
  shows "quiet w (wiggle_process e w)"
proof -
  have "\<forall>k \<in> set [0..<APP_MAX_WIGGLES]. \<not> active (slot_at k (snd (monotonic_ms e w)))"
    using assms by (simp add: slot_at_def zero_wiggle_def)
  then have "process_loop e t [0..<APP_MAX_WIGGLES] (snd (monotonic_ms e w)) = snd (monotonic_ms e w)" for t
    by (rule process_loop_idle)
  then show ?thesis by (simp add: wiggle_process_def case_prod_beta)
qed

lemma passive_tables:
  assumes "same_but_tables (app w) (app w')" and "worker w' = worker w"
    and "can_tx (trace w') = can_tx (trace w) @ hb" and "set hb \<subseteq> {heartbeat_frame}"
    and "testing_mode (config (app w)) \<Longrightarrow> hb = []" and "passive_inv w"
  shows "passive_inv w'"
  using assms(2-) same_but_tablesD[OF assms(1)] by (auto simp: passive_inv_def)

lemma passive_drain: "passive_inv w \<Longrightarrow> passive_inv (drain_can e w)"
  using drain_can_tables[of w e] passive_tables[of w "drain_can e w" "[]"] by simp

lemma process_slot_config [simp]: "config (app (process_slot e now k w)) = config (app w)"
  by (simp add: process_slot_def deactivate_slot_def Let_def)

lemma process_loop_config [simp]: "config (app (process_loop e now ks w)) = config (app w)"
  by (induction ks arbitrary: w) simp_all

lemma process_config [simp]: "config (app (wiggle_process e w)) = config (app w)"
  by (simp add: wiggle_process_def case_prod_beta)

lemma on_timer_config: "on_timer e (n, w) = Some (n', w') \<Longrightarrow> config (app w') = config (app w)"
  using same_but_tablesD(1)[OF flush_frame(1)]
  by (fastforce simp: on_timer_def Let_def case_prod_beta split: if_splits option.splits)

lemma on_timer_rest:
  assumes "on_timer e (n, w) = Some (n', w')"
  shows "same_but_tables (app (wiggle_process e w)) (app w')" and "worker w' = worker w"
proof -
  have "\<exists>v. app v = app (wiggle_process e w) \<and> worker v = worker w \<and> w' = flush_can_updates e v"
    using assms by (auto simp: on_timer_def Let_def case_prod_beta split: if_splits option.splits
        intro: exI [of _ "snd (heartbeat_send e (can_fd (app (wiggle_process e w)))
          (snd (heartbeat_now_ms e (wiggle_process e w))))"] exI [of _ "snd (heartbeat_now_ms e (wiggle_process e w))"])
  then obtain v where "app v = app (wiggle_process e w)" "worker v = worker w" "w' = flush_can_updates e v"
    by blast
  then show "same_but_tables (app (wiggle_process e w)) (app w')" and "worker w' = worker w"
    using flush_frame(1)[of v e] by (simp_all add: flush_frame)
qed

lemma passive_on_timer:
  assumes "on_timer e (n, w) = Some (n', w')" and "\<not> testing_mode (config (app w))" and "passive_inv w"
  shows "passive_inv w'"
proof (cases "muted (config (app w))")
  case False
  then show ?thesis using on_timer_config[OF assms(1)] by (simp add: passive_inv_def)
next
  case True
  then have "wiggles (app w) = replicate APP_MAX_WIGGLES zero_wiggle" using assms(3) by (simp add: passive_inv_def)
  from process_idle[OF this, of e] have p: "app (wiggle_process e w) = app w"
    "can_tx (trace (wiggle_process e w)) = can_tx (trace w)" by (simp_all add: quietD)
  show ?thesis
    by (rule passive_tables [OF _ on_timer_rest(2) [OF assms(1)] on_timer_tx [OF assms(1), unfolded p]])
      (use on_timer_rest(1)[OF assms(1)] p assms(2,3) in auto)
qed

lemma passive_loop_turn:
  "loop_turn e fds s = Some s' \<Longrightarrow> \<not> testing_mode (config (app (snd s))) \<Longrightarrow> passive_inv (snd s) \<Longrightarrow>
   passive_inv (snd s')"
proof (induction e fds s rule: loop_turn.induct)
  case (1 e s)
  then show ?case by simp
next
  case (2 e fd fds s)
  have timer: "passive_inv (snd s1) \<and> config (app (snd s1)) = config (app (snd s))" if "on_timer e s = Some s1" for s1
    using that "2.prems"(2,3) passive_on_timer[of e "fst s" "snd s" "fst s1" "snd s1"]
      on_timer_config[of e "fst s" "snd s" "fst s1" "snd s1"] by simp
  have drain: "config (app (drain_can e (snd s))) = config (app (snd s))"
    using drain_can_tables[of "snd s" e] by (simp add: same_but_tablesD)
  show ?case
    using 2 timer drain passive_drain[of "snd s" e] by (auto split: if_splits option.splits)
qed

lemma passive_worker: "passive_inv w \<Longrightarrow> passive_inv (worker_step e w)"
proof (cases "muted (config (app w))")
  case True
  then show "passive_inv w \<Longrightarrow> passive_inv (worker_step e w)"
    by (simp add: passive_inv_def worker_step_def)
next
  case False
  have "config (app (worker_step e w)) = config (app w)"
    by (simp add: worker_step_def send_block_def finish_sequence_def Let_def case_prod_beta
        split: option.splits worker_pc.splits)
  with False show ?thesis by (simp add: passive_inv_def)
qed

lemma passive_message: "control_inv w \<Longrightarrow> passive_inv w \<Longrightarrow> passive_inv (on_message e c f w)"
proof (cases "muted (config (app w))")
  case True
  then show "passive_inv w \<Longrightarrow> passive_inv (on_message e c f w)"
    by (rule passive_only_clients [OF only_clients_message])
next
  case False
  assume "control_inv w"
  then have "config (app (on_message e c f w)) = config (app w)"
    using safe_on_message[of w e c f] by (simp add: safe_def fixed_part_def)
  with False show ?thesis by (simp add: passive_inv_def)
qed

lemmas passive_steps = passive_only_clients [OF only_clients_connect]
  passive_only_clients [OF only_clients_disconnect] passive_message passive_worker

lemma passive_sys_step:
  "sys_step e s s' \<Longrightarrow> control_inv (snd s) \<Longrightarrow> passive_inv (snd s) \<Longrightarrow> passive_inv (snd s')"
proof (erule sys_stepE)
  fix w n
  assume "s = (n, w)" and "s' = (n, on_signal w)" and "passive_inv (snd s)"
  then show "passive_inv (snd s')" by (simp add: passive_inv_def on_signal_def)
next
  fix w n q
  assume "s = (n, w)" and "s' = (n, w\<lparr>rxq := rxq w @ q\<rparr>)" and "passive_inv (snd s)"
  then show "passive_inv (snd s')" by (simp add: passive_inv_def)
qed (auto simp: passive_steps dest: passive_loop_turn)

lemma passive_started:
  assumes "started e cfg d s"
  shows "passive_inv (snd s)"
proof -
  have f: "same_but_fds (initial_world cfg d) (snd s)"
    using main_init_fds assms by (simp add: started_def)
  show ?thesis
    using f unfolding same_but_fds_def
    by (cases "app (snd s)")
      (simp add: passive_inv_def initial_world_def app_context_init_def)
qed

interpretation mode: inductive_invariant "started e cfg d" "sys_step e" "\<lambda>s. control_inv (snd s)"
  "\<lambda>s. passive_inv (snd s)" for e cfg d
  by unfold_locales (auto intro: ctl.holds passive_started passive_sys_step)

section \<open>The configuration is constant\<close>

lemma worker_config: "config (app (worker_step e w)) = config (app w)"
  by (simp add: worker_step_def send_block_def finish_sequence_def Let_def case_prod_beta
      split: option.splits worker_pc.splits)

lemma only_clients_config: "only_clients w w' \<Longrightarrow> config (app w') = config (app w)"
proof -
  assume "only_clients w w'"
  then obtain cs where "app w' = (app w)\<lparr>clients := cs\<rparr>" unfolding only_clients_def by blast
  then show ?thesis by simp
qed

lemma message_config: "control_inv w \<Longrightarrow> config (app (on_message e c f w)) = config (app w)"
  using safe_on_message[of w e c f] by (simp add: safe_def fixed_part_def)

lemma loop_turn_config: "loop_turn e fds s = Some s' \<Longrightarrow> config (app (snd s')) = config (app (snd s))"
proof (induction e fds s rule: loop_turn.induct)
  case (1 e s)
  then show ?case by simp
next
  case (2 e fd fds s)
  have "config (app (snd s1)) = config (app (snd s))" if "on_timer e s = Some s1" for s1
    using that on_timer_config[of e "fst s" "snd s" "fst s1" "snd s1"] by simp
  moreover have "config (app (drain_can e (snd s))) = config (app (snd s))"
    using drain_can_tables[of "snd s" e] by (simp add: same_but_tablesD)
  ultimately show ?case using 2 by (auto split: if_splits option.splits)
qed

lemma config_sys_step: "sys_step e s s' \<Longrightarrow> control_inv (snd s) \<Longrightarrow> config (app (snd s')) = config (app (snd s))"
  by (erule sys_stepE)
    (auto simp: worker_config message_config only_clients_config [OF only_clients_connect]
      only_clients_config [OF only_clients_disconnect] on_signal_def dest: loop_turn_config)

lemma config_started:
  assumes "started e cfg d s"
  shows "config (app (snd s)) = cfg"
proof -
  have "same_but_fds (initial_world cfg d) (snd s)" using main_init_fds assms by (simp add: started_def)
  then show ?thesis unfolding same_but_fds_def
    by (cases "app (snd s)") (simp add: initial_world_def app_context_init_def)
qed

interpretation cfg: inductive_invariant "started e cfg d" "sys_step e" "\<lambda>s. control_inv (snd s)"
  "\<lambda>s. config (app (snd s)) = cfg" for e cfg d
  by unfold_locales (auto simp: config_sys_step intro: ctl.holds config_started)

section \<open>Properties\<close>

lemma sample_started:
  assumes "cfg = sample_config\<lparr>read_only := b\<rparr>"
  shows "started sample_env cfg [] (the (fst (main_init sample_env (initial_world cfg []))),
    snd (main_init sample_env (initial_world cfg [])))"
proof -
  have "fst (main_init sample_env (initial_world cfg [])) \<noteq> None"
    by (simp add: assms main_init_def initial_world_def sample_simps logger_open_def init_runtime_def init_epoll_def
        init_timer_def register_fd_def can_bus_configure_interface_def setup_commands_def run_command_def
        can_bus_open_def ws_bridge_start_def sys_def upd_app_def Let_def case_prod_beta)
  then show ?thesis by (simp add: started_def prod_eq_iff)
qed

text \<open>C1.  In every state the program can reach, for every environment and every interleaving of
  connections, messages, event-loop turns, steps of the firing thread, arriving frames and signals: all
  frames handed to the CAN bus are valid standard frames, no wiggle is active in HOTFIRE, the sequence
  flag is set exactly while the one firing thread lives and that thread has a well-formed sequence, and
  the wiggle table, the valve profile and the CAN tables are well formed.\<close>

theorem reachable_safe:
  assumes "reachable e cfg d (n, w)"
  shows "list_all valid_frame (can_tx (trace w)) \<and>
    (state (app w) = APP_STATE_HOTFIRE \<longrightarrow> (\<forall>s \<in> set (wiggles (app w)). \<not> active s)) \<and>
    (sequence_active (app w) \<longleftrightarrow> worker w \<noteq> None) \<and>
    (\<forall>k. worker w = Some k \<longrightarrow> config_ok (arg_config (wargs k))) \<and>
    wiggles_ok (wiggles (app w)) \<and> valve_ok (valve (app w)) \<and> can_tables_ok (app w)"
  using ctl.holds[OF assms] by (simp add: control_inv_def frames_ok_def hotfire_still_def sequence_ok_def)

theorem reachable_safe_witness:
  "list_all valid_frame (can_tx (trace (on_message sample_env 1 \<lparr>ftype = WS_TEXT_FRAME, payload = ''STATE#HOTFIRE''\<rparr>
     (snd (main_init sample_env (initial_world sample_config []))))))"
proof -
  let ?n = "the (fst (main_init sample_env (initial_world sample_config [])))"
  let ?w = "snd (main_init sample_env (initial_world sample_config []))"
  let ?f = "\<lparr>ftype = WS_TEXT_FRAME, payload = ''STATE#HOTFIRE''\<rparr>"
  have c: "sample_config = sample_config\<lparr>read_only := False\<rparr>" by (simp add: sample_config_def)
  have r: "reachable sample_env sample_config [] (?n, ?w)" by (intro reach_init sample_started [OF c])
  have up: "ws (app ?w)"
    by (simp add: main_init_def initial_world_def sample_simps logger_open_def init_runtime_def init_epoll_def
        init_timer_def register_fd_def can_bus_configure_interface_def setup_commands_def run_command_def
        can_bus_open_def ws_bridge_start_def sys_def upd_app_def heartbeat_now_ms_def Let_def case_prod_beta)
  have "reachable sample_env sample_config [] (?n, on_message sample_env 1 ?f ?w)"
    using r by (rule reach_step) (rule Message [OF up])
  from reachable_safe[OF this] show ?thesis by blast
qed

text \<open>C2.  In read-only and in testing mode no client can act on the hardware: in every reachable state
  the system is in PRECHILLING, no wiggle and no firing sequence exists, and nothing but heartbeats was
  sent to the bus; in testing mode nothing was sent at all.\<close>

theorem muted_system:
  assumes "reachable e cfg d (n, w)" and "read_only cfg \<or> testing_mode cfg"
  shows "worker w = None \<and> state (app w) = APP_STATE_PRECHILLING \<and>
    wiggles (app w) = replicate APP_MAX_WIGGLES zero_wiggle \<and>
    set (can_tx (trace w)) \<subseteq> {heartbeat_frame} \<and> (testing_mode cfg \<longrightarrow> can_tx (trace w) = [])"
proof -
  have "config (app w) = cfg" using cfg.holds[OF assms(1)] by simp
  then show ?thesis using mode.holds[OF assms(1)] assms(2) by (auto simp: passive_inv_def muted_def)
qed

theorem muted_system_witness:
  "worker (snd (main_init sample_env (initial_world (sample_config\<lparr>read_only := True\<rparr>) []))) = None"
proof -
  let ?c = "sample_config\<lparr>read_only := True\<rparr>"
  have "reachable sample_env ?c [] (the (fst (main_init sample_env (initial_world ?c []))),
      snd (main_init sample_env (initial_world ?c [])))"
    by (intro reach_init sample_started [OF refl])
  from muted_system[OF this] show ?thesis by simp
qed

end
