(* ===== verification/AppConfig.thy ===== *)
theory AppConfig
  imports Context
begin

text \<open>
  The configuration, \<^verbatim>\<open>src/app/config.c\<close>: defaults, the \<^verbatim>\<open>key=value\<close> file, the command line, and the
  final validation.  The file system is a function from paths to what \<^verbatim>\<open>fopen\<close> and \<^verbatim>\<open>fgets\<close> give:
  an \<^verbatim>\<open>errno\<close>, or the bytes of the file and whether reading them ended in an error.
\<close>

definition APP_DEFAULT_CONFIG_PATH :: string where
  "APP_DEFAULT_CONFIG_PATH = ''/etc/ws_server/ws_server.conf''"

definition IF_NAMESIZE :: nat where "IF_NAMESIZE = 16"

definition LOG_DIR_SIZE :: nat where "LOG_DIR_SIZE = 256"

definition app_config_init_defaults :: app_config where
  "app_config_init_defaults = \<lparr>ws_port = 8080, max_clients = 128, read_only = False,
     testing_mode = False, logging_enabled = False, auto_config_can = True, tick_interval_ms = 5,
     can_bitrate = 500000, can_ifname = ''can0'', cfg_log_dir = ''/var/log/simple_ws''\<rparr>"

section \<open>The file\<close>

definition trim_whitespace :: "string \<Rightarrow> string" where
  "trim_whitespace s = rev (dropWhile isspace (rev (dropWhile isspace s)))"

definition parse_bool_value :: "string \<Rightarrow> bool option" where
  "parse_bool_value v =
     (if strcasecmp_eq v ''1'' \<or> strcasecmp_eq v ''true'' \<or> strcasecmp_eq v ''yes'' \<or> strcasecmp_eq v ''on''
         \<or> strcasecmp_eq v ''enable'' then Some True
      else if strcasecmp_eq v ''0'' \<or> strcasecmp_eq v ''false'' \<or> strcasecmp_eq v ''no''
         \<or> strcasecmp_eq v ''off'' \<or> strcasecmp_eq v ''disable'' then Some False
      else None)"

text \<open>The guards \<^verbatim>\<open>*value == 0 || *endptr != 0\<close> with the range check, for both conversions.\<close>

definition file_ulong :: "string \<Rightarrow> nat option" where
  "file_ulong v = (case strtoul10 v of (n, endptr) \<Rightarrow> if v = [] \<or> endptr \<noteq> [] \<or> n = 0 then None else Some n)"

definition file_long :: "string \<Rightarrow> int option" where
  "file_long v = (case strtol10 v of (n, endptr) \<Rightarrow> if v = [] \<or> endptr \<noteq> [] \<or> n \<le> 0 then None else Some n)"

definition apply_config_kv :: "app_config \<Rightarrow> string \<Rightarrow> string \<Rightarrow> app_config option" where
  "apply_config_kv cfg key val =
     (if key = ''ws_port'' \<or> key = ''port'' then
        (case file_ulong val of
           None \<Rightarrow> None
         | Some n \<Rightarrow> if n > 65535 then None else Some (cfg\<lparr>ws_port := of_nat n\<rparr>))
      else if key = ''max_clients'' then
        map_option (\<lambda>n. cfg\<lparr>max_clients := int_of_long n\<rparr>) (file_long val)
      else if key = ''read_only'' then
        map_option (\<lambda>b. cfg\<lparr>read_only := b\<rparr>) (parse_bool_value val)
      else if key = ''testing_mode'' \<or> key = ''testing'' then
        map_option (\<lambda>b. cfg\<lparr>testing_mode := b\<rparr>) (parse_bool_value val)
      else if key = ''logging_enabled'' \<or> key = ''logging'' then
        map_option (\<lambda>b. cfg\<lparr>logging_enabled := b\<rparr>) (parse_bool_value val)
      else if key = ''auto_config_can'' then
        map_option (\<lambda>b. cfg\<lparr>auto_config_can := b\<rparr>) (parse_bool_value val)
      else if key = ''tick_interval_ms'' \<or> key = ''tick_ms'' then
        map_option (\<lambda>n. cfg\<lparr>tick_interval_ms := int_of_long n\<rparr>) (file_long val)
      else if key = ''can_bitrate'' then
        map_option (\<lambda>n. cfg\<lparr>can_bitrate := of_nat n\<rparr>) (file_ulong val)
      else if key = ''can_ifname'' \<or> key = ''can_if'' then
        Some (cfg\<lparr>can_ifname := trunc_buf IF_NAMESIZE val\<rparr>)
      else if key = ''log_dir'' \<or> key = ''log_path'' then
        Some (cfg\<lparr>cfg_log_dir := trunc_buf LOG_DIR_SIZE val\<rparr>)
      else None)"

definition unquote :: "string \<Rightarrow> string" where
  "unquote v = (if v \<noteq> [] \<and> hd v = CHR 0x22 \<and> length v \<ge> 2 \<and> last v = CHR 0x22 then butlast (tl v) else v)"

text \<open>The body of the reading loop on one line; \<open>None\<close> is the error \<^verbatim>\<open>EINVAL\<close>.\<close>

definition config_line :: "app_config \<Rightarrow> string \<Rightarrow> app_config option" where
  "config_line cfg line =
     (let trimmed = trim_whitespace line in
      if trimmed = [] \<or> hd trimmed = CHR ''#'' \<or> hd trimmed = CHR '';'' then Some cfg
      else case strchr CHR ''='' trimmed of
          None \<Rightarrow> None
        | Some eq \<Rightarrow>
            let key = trim_whitespace (takeWhile (\<lambda>c. c \<noteq> CHR ''='') trimmed);
                val = unquote (trim_whitespace (tl eq))
            in apply_config_kv cfg key val)"

text \<open>\<^verbatim>\<open>fgets(line, 512, fp)\<close>: at most 511 bytes, up to and including a newline.\<close>

definition fgets :: "nat \<Rightarrow> string \<Rightarrow> string \<times> string" where
  "fgets cap s =
     (let n = length (takeWhile (\<lambda>c. c \<noteq> CHR 0x0A) s); k = min (cap - 1) (Suc n)
      in (take k s, drop k s))"

function fgets_all :: "string \<Rightarrow> string list" where
  "fgets_all s = (if s = [] then [] else fst (fgets 512 s) # fgets_all (snd (fgets 512 s)))"
  by pat_completeness auto
termination
  by (relation "measure length") (auto simp: fgets_def Let_def)

declare fgets_all.simps [simp del]

fun config_lines :: "app_config \<Rightarrow> string list \<Rightarrow> app_config option" where
  "config_lines cfg [] = Some cfg"
| "config_lines cfg (l # ls) =
     (case config_line cfg (c_str l) of None \<Rightarrow> None | Some cfg' \<Rightarrow> config_lines cfg' ls)"

datatype file_result = OpenFailed int | FileData string bool

type_synonym file_system = "string \<Rightarrow> file_result"

definition app_config_load_file :: "file_system \<Rightarrow> app_config \<Rightarrow> string \<Rightarrow> int + app_config" where
  "app_config_load_file fs cfg path =
     (case fs path of
        OpenFailed err \<Rightarrow> Inl err
      | FileData text failed \<Rightarrow>
          (case config_lines cfg (fgets_all text) of
             None \<Rightarrow> Inl EINVAL
           | Some cfg' \<Rightarrow> if failed then Inl EIO else Inr cfg'))"

section \<open>The command line\<close>

text \<open>The arguments are those after \<^verbatim>\<open>argv[0]\<close>; \<open>None\<close> is \<^verbatim>\<open>print_usage_and_exit\<close>.\<close>

fun config_path_of :: "string list \<Rightarrow> string \<times> bool \<Rightarrow> (string \<times> bool) option" where
  "config_path_of [] p = Some p"
| "config_path_of [a] p = (if a = ''--config'' then None else Some p)"
| "config_path_of (a # b # as) p =
     (if a = ''--config'' then config_path_of as (b, True) else config_path_of (b # as) p)"

fun apply_args :: "string list \<Rightarrow> app_config \<Rightarrow> app_config option" where
  "apply_args [] cfg = Some cfg"
| "apply_args (a # as) cfg =
     (if a = ''--config'' then (if as = [] then None else apply_args (tl as) cfg)
      else if a = ''--port'' \<and> as \<noteq> [] then
        apply_args (tl as) (cfg\<lparr>ws_port := word_of_int (atoi (hd as))\<rparr>)
      else if a = ''--max-clients'' \<and> as \<noteq> [] then
        apply_args (tl as) (cfg\<lparr>max_clients := atoi (hd as)\<rparr>)
      else if a = ''--read-only'' then apply_args as (cfg\<lparr>read_only := True\<rparr>)
      else if a = ''--testing'' then apply_args as (cfg\<lparr>testing_mode := True\<rparr>)
      else if a = ''--logging'' then apply_args as (cfg\<lparr>logging_enabled := True\<rparr>)
      else if a = ''--can-if'' \<and> as \<noteq> [] then
        apply_args (tl as) (cfg\<lparr>can_ifname := trunc_buf IF_NAMESIZE (hd as)\<rparr>)
      else if a = ''--can-bitrate'' \<and> as \<noteq> [] then
        apply_args (tl as) (cfg\<lparr>can_bitrate := of_nat (fst (strtoul10 (hd as)))\<rparr>)
      else if a = ''--no-can-config'' then apply_args as (cfg\<lparr>auto_config_can := False\<rparr>)
      else if a = ''--tick-ms'' \<and> as \<noteq> [] then
        apply_args (tl as) (cfg\<lparr>tick_interval_ms := atoi (hd as)\<rparr>)
      else if (a = ''--log-dir'' \<or> a = ''--log-path'') \<and> as \<noteq> [] then
        apply_args (tl as) (cfg\<lparr>cfg_log_dir := trunc_buf LOG_DIR_SIZE (hd as)\<rparr>)
      else None)"

datatype parse_result = Parsed app_config | Invalid | Usage

text \<open>The last check of \<^verbatim>\<open>app_config_parse\<close>.\<close>

definition config_accepted :: "app_config \<Rightarrow> bool" where
  "config_accepted cfg \<longleftrightarrow> \<not> (ws_port cfg = 0 \<or> max_clients cfg \<le> 0 \<or> tick_interval_ms cfg \<le> 0 \<or> can_bitrate cfg = 0)"

definition app_config_parse :: "file_system \<Rightarrow> string list \<Rightarrow> app_config \<Rightarrow> parse_result" where
  "app_config_parse fs args cfg =
     (case config_path_of args (APP_DEFAULT_CONFIG_PATH, False) of
        None \<Rightarrow> Usage
      | Some (path, user_provided) \<Rightarrow>
          let loaded = app_config_load_file fs cfg path in
          case (case loaded of
                  Inr cfg1 \<Rightarrow> Some cfg1
                | Inl err \<Rightarrow> if user_provided \<or> err \<noteq> ENOENT then None else Some cfg) of
            None \<Rightarrow> Invalid
          | Some cfg1 \<Rightarrow>
              (case apply_args args cfg1 of
                 None \<Rightarrow> Usage
               | Some cfg2 \<Rightarrow> if config_accepted cfg2 then Parsed cfg2 else Invalid))"

text \<open>The text \<^verbatim>\<open>app_config_print\<close> writes to the standard output.\<close>

definition yes_no :: "bool \<Rightarrow> string" where
  "yes_no b = (if b then ''yes'' else ''no'')"

definition app_config_print :: "app_config \<Rightarrow> string" where
  "app_config_print cfg = concat (map (\<lambda>l. l @ [CHR 0x0A])
     ([''WebSocket port: '' @ show_u (unat (ws_port cfg)),
       ''Max clients: '' @ show_d (max_clients cfg),
       ''Read only: '' @ yes_no (read_only cfg),
       ''Testing mode: '' @ yes_no (testing_mode cfg),
       ''Logging: '' @ yes_no (logging_enabled cfg),
       ''CAN interface: '' @ can_ifname cfg,
       ''CAN bitrate: '' @ show_u (unat (can_bitrate cfg)),
       ''CAN auto-config: '' @ yes_no (auto_config_can cfg),
       ''Tick interval: '' @ show_d (tick_interval_ms cfg) @ '' ms'']
      @ (if logging_enabled cfg then [''Log dir: '' @ cfg_log_dir cfg] else [])))"

section \<open>Bounds of an accepted configuration\<close>

text \<open>The ranges of the struct's members: 32-bit \<^verbatim>\<open>int\<close>s and the two character buffers.\<close>

definition config_ranges :: "app_config \<Rightarrow> bool" where
  "config_ranges c \<longleftrightarrow> max_clients c \<in> {- (2 ^ 31)..<2 ^ 31} \<and> tick_interval_ms c \<in> {- (2 ^ 31)..<2 ^ 31} \<and>
     length (can_ifname c) < IF_NAMESIZE \<and> length (cfg_log_dir c) < LOG_DIR_SIZE"

lemma int_of_long_range: "int_of_long n \<in> {- (2 ^ 31)..<2 ^ 31}"
  using sint_greater_eq[of "word_of_int n :: u32"] sint_less[of "word_of_int n :: u32"]
  by (simp add: int_of_long_def)

lemma atoi_range: "atoi s \<in> {- (2 ^ 31)..<2 ^ 31}"
  unfolding atoi_def by (rule int_of_long_range)

lemma length_trunc_buf [simp]: "0 < n \<Longrightarrow> length (trunc_buf n s) < n"
  by (simp add: trunc_buf_def)

lemma buffer_sizes [simp]: "0 < IF_NAMESIZE" "0 < LOG_DIR_SIZE"
  by (simp_all add: IF_NAMESIZE_def LOG_DIR_SIZE_def)

lemma ranges_update [simp]:
  "config_ranges (c\<lparr>ws_port := p\<rparr>) = config_ranges c" "config_ranges (c\<lparr>read_only := b\<rparr>) = config_ranges c"
  "config_ranges (c\<lparr>testing_mode := b\<rparr>) = config_ranges c" "config_ranges (c\<lparr>logging_enabled := b\<rparr>) = config_ranges c"
  "config_ranges (c\<lparr>auto_config_can := b\<rparr>) = config_ranges c" "config_ranges (c\<lparr>can_bitrate := r\<rparr>) = config_ranges c"
  "config_ranges c \<Longrightarrow> config_ranges (c\<lparr>max_clients := int_of_long n\<rparr>)"
  "config_ranges c \<Longrightarrow> config_ranges (c\<lparr>tick_interval_ms := int_of_long n\<rparr>)"
  "config_ranges c \<Longrightarrow> config_ranges (c\<lparr>max_clients := atoi s\<rparr>)"
  "config_ranges c \<Longrightarrow> config_ranges (c\<lparr>tick_interval_ms := atoi s\<rparr>)"
  "config_ranges c \<Longrightarrow> config_ranges (c\<lparr>can_ifname := trunc_buf IF_NAMESIZE s\<rparr>)"
  "config_ranges c \<Longrightarrow> config_ranges (c\<lparr>cfg_log_dir := trunc_buf LOG_DIR_SIZE s\<rparr>)"
  using int_of_long_range[of n] atoi_range[of s] by (simp_all add: config_ranges_def)

lemma pred_option_if: "pred_option P x \<Longrightarrow> pred_option P y \<Longrightarrow> pred_option P (if b then x else y)"
  by simp

lemma pred_option_map: "(\<And>x. P (f x)) \<Longrightarrow> pred_option P (map_option f x)"
  by (cases x) simp_all

lemma pred_option_SomeD: "pred_option P x \<Longrightarrow> x = Some y \<Longrightarrow> P y"
  by simp

lemma apply_config_kv_pred: "config_ranges c \<Longrightarrow> pred_option config_ranges (apply_config_kv c k v)"
  unfolding apply_config_kv_def
  by (intro pred_option_if pred_option_map) (simp_all split: option.splits)

lemmas apply_config_kv_ranges = pred_option_SomeD [OF apply_config_kv_pred]

lemma config_line_ranges: "config_line c l = Some c' \<Longrightarrow> config_ranges c \<Longrightarrow> config_ranges c'"
  by (auto simp: config_line_def Let_def split: if_splits option.splits intro: apply_config_kv_ranges)

lemma config_lines_ranges: "config_lines c ls = Some c' \<Longrightarrow> config_ranges c \<Longrightarrow> config_ranges c'"
  by (induction c ls rule: config_lines.induct) (auto split: option.splits intro: config_line_ranges)

lemma apply_args_pred: "config_ranges c \<Longrightarrow> pred_option config_ranges (apply_args as c)"
proof (induction as arbitrary: c rule: length_induct)
  case (1 as)
  show ?case
  proof (cases as)
    case Nil
    with 1 show ?thesis by simp
  next
    case (Cons a bs)
    then have IH: "config_ranges d \<Longrightarrow> pred_option config_ranges (apply_args bs d)"
      "config_ranges d \<Longrightarrow> pred_option config_ranges (apply_args (tl bs) d)" for d
      using "1.IH" by simp_all
    show ?thesis
      unfolding Cons apply_args.simps by (intro pred_option_if IH) (simp_all add: "1.prems")
  qed
qed

lemmas apply_args_ranges = pred_option_SomeD [OF apply_args_pred]

lemma load_file_ranges: "app_config_load_file fs c p = Inr c' \<Longrightarrow> config_ranges c \<Longrightarrow> config_ranges c'"
  by (auto simp: app_config_load_file_def split: file_result.splits option.splits if_splits
      intro: config_lines_ranges)

lemma parse_ranges: "app_config_parse fs as c = Parsed c' \<Longrightarrow> config_ranges c \<Longrightarrow> config_ranges c'"
  by (auto simp: app_config_parse_def Let_def split: option.splits sum.splits if_splits prod.splits
      intro: apply_args_ranges load_file_ranges)

lemma parse_accepted: "app_config_parse fs as c = Parsed c' \<Longrightarrow> config_accepted c'"
  by (auto simp: app_config_parse_def Let_def split: option.splits sum.splits if_splits prod.splits)

lemma defaults_ok: "config_ranges app_config_init_defaults" "config_accepted app_config_init_defaults"
  by (simp_all add: config_ranges_def config_accepted_def app_config_init_defaults_def IF_NAMESIZE_def LOG_DIR_SIZE_def)

section \<open>The command line is read left to right\<close>

lemma apply_args_append:
  "apply_args xs c = Some d \<Longrightarrow> apply_args (xs @ ys) c = apply_args ys d"
proof (induction xs arbitrary: c rule: length_induct)
  case (1 xs)
  show ?case
  proof (cases xs)
    case Nil
    with 1 show ?thesis by simp
  next
    case (Cons a as)
    show ?thesis
    proof (cases "as = []")
      case True
      with "1.prems" Cons show ?thesis by (auto split: if_splits)
    next
      case False
      then have tl: "tl (as @ ys) = tl as @ ys" and hd: "hd (as @ ys) = hd as" by (cases as; simp)+
      have ne: "(as = []) = False" "(as @ ys = []) = False" using False by simp_all
      have IH: "apply_args as c = Some d \<longrightarrow> apply_args (as @ ys) c = apply_args ys d"
        "apply_args (tl as) c = Some d \<longrightarrow> apply_args (tl as @ ys) c = apply_args ys d" for c
        using "1.IH" Cons by simp_all
      have branch: "(x = Some d \<longrightarrow> x' = r) \<Longrightarrow> (y = Some d \<longrightarrow> y' = r) \<Longrightarrow>
          ((if b then x else y) = Some d \<longrightarrow> (if b then x' else y') = r)" for b x x' y y' r
        by simp
      have "apply_args (a # as) c = Some d \<longrightarrow> apply_args ((a # as) @ ys) c = apply_args ys d"
        unfolding append_Cons apply_args.simps tl hd ne not_False_eq_True simp_thms if_False
        by (intro branch IH) simp_all
      then show ?thesis using "1.prems" Cons by simp
    qed
  qed
qed

section \<open>Writing a configuration file and reading it back\<close>

lemma strtol10_show: "n < 2 ^ 63 \<Longrightarrow> strtol10 (show_u n) = (int n, [])"
proof -
  assume n: "n < 2 ^ 63"
  have ad: "all_digits 10 (show_u n)" by (simp add: show_u_def all_digits_in)
  then obtain c t where ct: "show_u n = c # t" by (cases "show_u n") (auto simp: all_digits_def)
  note c = all_digits_avoid[OF ad, of c]
  have "scan_digits 10 0 (digits_in 10 n @ []) = (n, [])" by (subst scan_digits_digits_in) simp_all
  then have sd: "scan_digits 10 0 (c # t) = (n, [])" using ct by (simp add: show_u_def)
  have dw: "dropWhile isspace (c # t) = c # t" using c ct by simp
  have sg: "scan_sign (c # t) = (False, c # t)" using c ct by (simp add: scan_sign_def)
  have mg: "scan_mag 10 (c # t) = Some (n, [])" using c ct sd by (simp add: scan_mag_def del: scan_digits.simps)
  show ?thesis unfolding strtol10_def ct dw sg using mg n by (simp add: long_of_def)
qed

lemma int_of_long_id: "0 \<le> n \<Longrightarrow> n < 2 ^ 31 \<Longrightarrow> int_of_long n = n"
  by (simp add: int_of_long_def signed_of_int signed_take_bit_int_eq_self)

lemma file_ulong_show: "0 < n \<Longrightarrow> n < 2 ^ 64 \<Longrightarrow> file_ulong (show_u n) = Some n"
  using scan_int_show(3)[of "[]" n] by (simp add: file_ulong_def strtoul10_def show_u_def)

lemma file_long_show: "0 < n \<Longrightarrow> n < 2 ^ 31 \<Longrightarrow> file_long (show_u (nat n)) = Some n"
  by (simp add: file_long_def strtol10_show show_u_def [symmetric]) (simp add: show_u_def)

text \<open>A character that \<^verbatim>\<open>trim_whitespace\<close> and the line syntax leave alone, and values made of them.\<close>

definition plain_char :: "char \<Rightarrow> bool" where
  "plain_char c \<longleftrightarrow> \<not> isspace c \<and> c \<noteq> CHR ''='' \<and> c \<noteq> CHR ''#'' \<and> c \<noteq> CHR '';'' \<and> c \<noteq> CHR 0x22 \<and> c \<noteq> CHR 0x00"

lemma plain_char_digit: "all_digits 10 s \<Longrightarrow> list_all plain_char s"
proof (unfold list_all_iff, intro ballI)
  fix c
  assume "all_digits 10 s" and "c \<in> set s"
  then obtain d where d: "d < 10" "c = digit_char d" by (auto simp: all_digits_def)
  then have "d < 16" by simp
  then show "plain_char c" unfolding d(2)
    by (rule less_16_cases) (simp_all add: plain_char_def digit_char_def isspace_def)
qed

lemma plain_newline [simp]: "\<not> plain_char (CHR 0x0A)" "isspace (CHR 0x0A)"
  by (simp_all add: plain_char_def isspace_def)

lemma plain_charD:
  assumes "plain_char c"
  shows "\<not> isspace c" "c \<noteq> CHR ''=''" "c \<noteq> CHR ''#''" "c \<noteq> CHR '';''" "c \<noteq> CHR 0x22" "c \<noteq> CHR 0x00" "c \<noteq> CHR 0x0A"
  using assms plain_newline(1) by (auto simp: plain_char_def simp del: plain_newline)

lemma trim_solid: "xs = [] \<or> (\<not> isspace (hd xs) \<and> \<not> isspace (last xs)) \<Longrightarrow> trim_whitespace xs = xs"
proof (cases xs)
  case (Cons a as)
  assume "xs = [] \<or> (\<not> isspace (hd xs) \<and> \<not> isspace (last xs))"
  then have "dropWhile isspace xs = xs" "dropWhile isspace (rev xs) = rev xs"
    using Cons by (simp, cases "rev xs") (auto simp flip: hd_rev)
  then show ?thesis by (simp add: trim_whitespace_def)
qed (simp add: trim_whitespace_def)

lemma trim_newline:
  assumes "xs \<noteq> []" and "\<not> isspace (hd xs)" and "\<not> isspace (last xs)"
  shows "trim_whitespace (xs @ [CHR 0x0A]) = xs"
proof -
  have "dropWhile isspace (xs @ [CHR 0x0A]) = xs @ [CHR 0x0A]" using assms by (cases xs) auto
  moreover have "dropWhile isspace (rev xs) = rev xs" using assms by (cases "rev xs") (auto simp: hd_rev)
  ultimately show ?thesis by (simp add: trim_whitespace_def)
qed

lemma trim_plain: "list_all plain_char xs \<Longrightarrow> trim_whitespace xs = xs"
  by (intro trim_solid) (cases "xs = []"; auto simp: list_all_iff plain_charD)

lemma config_line_kv:
  assumes "k \<noteq> []" and "list_all plain_char k" and "list_all plain_char v"
  shows "config_line cfg (k @ CHR ''='' # v @ [CHR 0x0A]) = apply_config_kv cfg k v"
proof -
  let ?l = "k @ CHR ''='' # v"
  have k: "hd k \<in> set k" using assms(1) by simp
  have hd: "hd ?l = hd k" and pk: "plain_char (hd k)" using assms k by (simp_all add: list_all_iff)
  have "\<not> isspace (last ?l)"
    using assms(3) by (cases "v = []") (simp_all add: list_all_iff plain_charD, simp add: isspace_def)
  then have "trim_whitespace (?l @ [CHR 0x0A]) = ?l"
    using hd plain_charD(1)[OF pk] by (intro trim_newline) simp_all
  then have t: "trim_whitespace (k @ CHR ''='' # v @ [CHR 0x0A]) = ?l" by simp
  have ne: "\<forall>c \<in> set k. c \<noteq> CHR ''=''" using assms(2) by (auto simp: list_all_iff plain_charD)
  then have sc: "strchr CHR ''='' ?l = Some (CHR ''='' # v)"
    and tw: "takeWhile (\<lambda>c. c \<noteq> CHR ''='') ?l = k"
    by (simp_all add: strchr_def takeWhile_all_append dropWhile_append3)
  have "unquote v = v" using assms(3) by (cases v) (auto simp: unquote_def list_all_iff plain_charD)
  then show ?thesis
    using plain_charD[OF pk] hd assms(1)
    by (simp add: config_line_def t sc tw trim_plain assms(2,3) Let_def)
qed

lemma fgets_all_line:
  assumes "\<forall>c \<in> set l. c \<noteq> CHR 0x0A" and "length l < 511"
  shows "fgets_all (l @ CHR 0x0A # r) = (l @ [CHR 0x0A]) # fgets_all r"
proof -
  have "takeWhile (\<lambda>c. c \<noteq> CHR 0x0A) (l @ CHR 0x0A # r) = l" using assms(1) by (simp add: takeWhile_all_append)
  then have "fgets 512 (l @ CHR 0x0A # r) = (l @ [CHR 0x0A], r)" using assms(2) by (simp add: fgets_def Let_def)
  then show ?thesis by (subst fgets_all.simps) simp
qed

text \<open>A file of \<^verbatim>\<open>key=value\<close> lines is read as the sequence of its settings.\<close>

definition kv_line :: "string \<times> string \<Rightarrow> string" where
  "kv_line kv = fst kv @ CHR ''='' # snd kv @ [CHR 0x0A]"

definition kv_ok :: "string \<times> string \<Rightarrow> bool" where
  "kv_ok kv \<longleftrightarrow> fst kv \<noteq> [] \<and> list_all plain_char (fst kv) \<and> list_all plain_char (snd kv) \<and>
     length (fst kv) + length (snd kv) < 510"

fun apply_all :: "app_config \<Rightarrow> (string \<times> string) list \<Rightarrow> app_config option" where
  "apply_all cfg [] = Some cfg"
| "apply_all cfg ((k, v) # kvs) =
     (case apply_config_kv cfg k v of None \<Rightarrow> None | Some cfg' \<Rightarrow> apply_all cfg' kvs)"

lemma config_lines_kv:
  "list_all kv_ok kvs \<Longrightarrow> config_lines cfg (fgets_all (concat (map kv_line kvs))) = apply_all cfg kvs"
proof (induction cfg kvs rule: apply_all.induct)
  case (1 cfg)
  show ?case by (simp add: fgets_all.simps)
next
  case (2 cfg k v kvs)
  let ?l = "k @ CHR ''='' # v"
  have ok: "k \<noteq> []" "list_all plain_char k" "list_all plain_char v" "length k + length v < 510"
    using "2.prems" by (simp_all add: kv_ok_def)
  have nl: "\<forall>c \<in> set ?l. c \<noteq> CHR 0x0A" and nul: "\<forall>c \<in> set ?l. c \<noteq> CHR 0x00"
    using ok by (auto simp: list_all_iff dest: plain_charD)
  have "fgets_all (concat (map kv_line ((k, v) # kvs))) = (?l @ [CHR 0x0A]) # fgets_all (concat (map kv_line kvs))"
    using fgets_all_line[OF nl] ok(4) by (simp add: kv_line_def)
  moreover have "c_str (?l @ [CHR 0x0A]) = ?l @ [CHR 0x0A]" using nul by (simp add: c_str_def takeWhile_all_append)
  moreover have "config_line cfg (?l @ [CHR 0x0A]) = apply_config_kv cfg k v" using config_line_kv[OF ok(1-3)] by simp
  ultimately show ?case using 2 by (simp split: option.splits)
qed

definition show_bool :: "bool \<Rightarrow> string" where
  "show_bool b = (if b then ''true'' else ''false'')"

definition config_kvs :: "app_config \<Rightarrow> (string \<times> string) list" where
  "config_kvs c =
     [(''ws_port'', show_u (unat (ws_port c))), (''max_clients'', show_u (nat (max_clients c))),
      (''read_only'', show_bool (read_only c)), (''testing_mode'', show_bool (testing_mode c)),
      (''logging_enabled'', show_bool (logging_enabled c)), (''auto_config_can'', show_bool (auto_config_can c)),
      (''tick_interval_ms'', show_u (nat (tick_interval_ms c))), (''can_bitrate'', show_u (unat (can_bitrate c))),
      (''can_ifname'', can_ifname c), (''log_dir'', cfg_log_dir c)]"

definition config_text :: "app_config \<Rightarrow> string" where
  "config_text c = concat (map kv_line (config_kvs c))"

lemma parse_show_bool [simp]: "parse_bool_value (show_bool b) = Some b"
  by (cases b) (simp_all add: parse_bool_value_def show_bool_def strcasecmp_eq_def tolower_def)

lemma length_show_u: "n < 10 ^ 20 \<Longrightarrow> length (show_u n) \<le> 20"
  unfolding show_u_def by (intro length_digits_in) simp_all

lemma plain_show [simp]: "list_all plain_char (show_u n)" "list_all plain_char (show_bool b)"
  by (simp add: plain_char_digit show_u_def all_digits_in)
    (simp add: show_bool_def plain_char_def isspace_def)

lemma length_show_bool [simp]: "length (show_bool b) \<le> 5"
  by (simp add: show_bool_def)

lemma plain_keys [simp]:
  "list_all plain_char ''ws_port''" "list_all plain_char ''max_clients''" "list_all plain_char ''read_only''"
  "list_all plain_char ''testing_mode''" "list_all plain_char ''logging_enabled''"
  "list_all plain_char ''auto_config_can''" "list_all plain_char ''tick_interval_ms''"
  "list_all plain_char ''can_bitrate''" "list_all plain_char ''can_ifname''" "list_all plain_char ''log_dir''"
  by (simp_all add: plain_char_def isspace_def)

lemma kv_ok_intro: "k \<noteq> [] \<Longrightarrow> list_all plain_char k \<Longrightarrow> list_all plain_char v \<Longrightarrow> length k \<le> 20 \<Longrightarrow>
    length v < 490 \<Longrightarrow> kv_ok (k, v)"
  by (simp add: kv_ok_def)

lemma config_kvs_ok:
  assumes "config_ranges c" and "list_all plain_char (can_ifname c)" and "list_all plain_char (cfg_log_dir c)"
  shows "list_all kv_ok (config_kvs c)"
proof -
  have n: "length (show_u n) < 490" if "n < 2 ^ 64" for n using length_show_u[of n] that by simp
  have "unat (ws_port c) < 2 ^ 64" "unat (can_bitrate c) < 2 ^ 64"
    using unsigned_less[of "ws_port c", where 'a = nat] unsigned_less[of "can_bitrate c", where 'a = nat] by simp_all
  moreover have "nat (max_clients c) < 2 ^ 64" "nat (tick_interval_ms c) < 2 ^ 64"
    "length (can_ifname c) < 490" "length (cfg_log_dir c) < 490"
    using assms(1) by (auto simp: config_ranges_def IF_NAMESIZE_def LOG_DIR_SIZE_def nat_less_iff)
  moreover have "length (show_bool b) < 490" for b using length_show_bool[of b] by linarith
  ultimately show ?thesis
    unfolding config_kvs_def list.pred_inject using assms(2,3) n
    by (intro conjI TrueI kv_ok_intro) (simp_all only: plain_show plain_keys list.size, simp_all)
qed

lemma apply_kv_simps:
  "0 < n \<Longrightarrow> n \<le> 65535 \<Longrightarrow> apply_config_kv c ''ws_port'' (show_u n) = Some (c\<lparr>ws_port := of_nat n\<rparr>)"
  "0 < i \<Longrightarrow> i < 2 ^ 31 \<Longrightarrow> apply_config_kv c ''max_clients'' (show_u (nat i)) = Some (c\<lparr>max_clients := i\<rparr>)"
  "apply_config_kv c ''read_only'' (show_bool b) = Some (c\<lparr>read_only := b\<rparr>)"
  "apply_config_kv c ''testing_mode'' (show_bool b) = Some (c\<lparr>testing_mode := b\<rparr>)"
  "apply_config_kv c ''logging_enabled'' (show_bool b) = Some (c\<lparr>logging_enabled := b\<rparr>)"
  "apply_config_kv c ''auto_config_can'' (show_bool b) = Some (c\<lparr>auto_config_can := b\<rparr>)"
  "0 < i \<Longrightarrow> i < 2 ^ 31 \<Longrightarrow> apply_config_kv c ''tick_interval_ms'' (show_u (nat i)) = Some (c\<lparr>tick_interval_ms := i\<rparr>)"
  "0 < n \<Longrightarrow> n < 2 ^ 32 \<Longrightarrow> apply_config_kv c ''can_bitrate'' (show_u n) = Some (c\<lparr>can_bitrate := of_nat n\<rparr>)"
  "length s < IF_NAMESIZE \<Longrightarrow> apply_config_kv c ''can_ifname'' s = Some (c\<lparr>can_ifname := s\<rparr>)"
  "length s < LOG_DIR_SIZE \<Longrightarrow> apply_config_kv c ''log_dir'' s = Some (c\<lparr>cfg_log_dir := s\<rparr>)"
  by (simp_all add: apply_config_kv_def file_ulong_show file_long_show int_of_long_id trunc_buf_def)

lemma apply_all_config:
  assumes "config_ranges c" and "config_accepted c"
  shows "apply_all cfg (config_kvs c) = Some c"
proof -
  have "0 < unat (ws_port c)" "unat (ws_port c) \<le> 65535" "0 < unat (can_bitrate c)" "unat (can_bitrate c) < 2 ^ 32"
    using assms(2) unsigned_less[of "ws_port c", where 'a = nat] unsigned_less[of "can_bitrate c", where 'a = nat]
    by (simp_all add: config_accepted_def unat_gt_0)
  moreover have "0 < max_clients c" "max_clients c < 2 ^ 31" "0 < tick_interval_ms c" "tick_interval_ms c < 2 ^ 31"
    using assms by (simp_all add: config_accepted_def config_ranges_def)
  ultimately show ?thesis
    using assms(1) by (cases c) (simp add: config_kvs_def apply_kv_simps config_ranges_def)
qed

lemma load_config_text:
  assumes "config_ranges c" and "config_accepted c"
    and "list_all plain_char (can_ifname c)" and "list_all plain_char (cfg_log_dir c)"
    and "fs path = FileData (config_text c) False"
  shows "app_config_load_file fs cfg path = Inr c"
  using assms by (simp add: app_config_load_file_def config_text_def config_lines_kv config_kvs_ok apply_all_config)

section \<open>Properties\<close>

lemma config_path_skip: "''--config'' \<notin> set ys \<Longrightarrow> config_path_of ys q = Some q"
  by (induction ys q rule: config_path_of.induct) auto

lemma config_path_append:
  "config_path_of xs q = Some r \<Longrightarrow> ''--config'' \<notin> set ys \<Longrightarrow> config_path_of (xs @ ys) q = Some r"
proof (induction xs q rule: config_path_of.induct)
  case (1 p)
  then show ?case by (simp add: config_path_skip)
next
  case (2 a p)
  then show ?case by (cases ys) (simp_all add: config_path_skip split: if_splits)
next
  case (3 a b as p)
  then show ?case by (simp split: if_splits)
qed

text \<open>C34.  A configuration the program accepts is usable: the port, the number of clients, the tick
  interval and the bitrate are positive and in the range of their C types, both strings fit their
  buffers with the terminator, and the timer gets a valid non-zero interval.\<close>

theorem accepted_config:
  assumes "app_config_parse fs args app_config_init_defaults = Parsed cfg"
  shows "ws_port cfg \<noteq> 0 \<and> 0 < max_clients cfg \<and> max_clients cfg < 2 ^ 31 \<and> 0 < tick_interval_ms cfg \<and>
    tick_interval_ms cfg < 2 ^ 31 \<and> can_bitrate cfg \<noteq> 0 \<and>
    length (can_ifname cfg) < 16 \<and> length (cfg_log_dir cfg) < 256 \<and>
    (tick_interval_ms cfg mod 1000) * 1000000 < 1000000000 \<and>
    0 < (tick_interval_ms cfg div 1000) * 1000000000 + (tick_interval_ms cfg mod 1000) * 1000000"
proof -
  have r: "config_ranges cfg" and a: "config_accepted cfg"
    using parse_ranges[OF assms defaults_ok(1)] parse_accepted[OF assms] by simp_all
  have t: "0 < tick_interval_ms cfg" using a by (simp add: config_accepted_def)
  then have "0 < (tick_interval_ms cfg div 1000) * 1000 + tick_interval_ms cfg mod 1000" by simp
  then have "0 < (tick_interval_ms cfg div 1000) * 1000000000 + (tick_interval_ms cfg mod 1000) * 1000000" by linarith
  moreover have "(tick_interval_ms cfg mod 1000) * 1000000 < 1000000000"
    using pos_mod_bound[of 1000 "tick_interval_ms cfg"] by linarith
  ultimately show ?thesis
    using r a by (simp add: config_ranges_def config_accepted_def IF_NAMESIZE_def LOG_DIR_SIZE_def)
qed

definition no_files :: file_system where
  "no_files p = OpenFailed ENOENT"

lemma parse_no_files: "app_config_parse no_files [] app_config_init_defaults = Parsed app_config_init_defaults"
  using defaults_ok(2) by (simp add: app_config_parse_def app_config_load_file_def no_files_def)

theorem accepted_config_witness: "ws_port app_config_init_defaults \<noteq> 0 \<and> max_clients app_config_init_defaults < 2 ^ 31"
  using accepted_config[OF parse_no_files] by simp

text \<open>C35.  Every acceptable configuration can be written as a file: printing it in the \<^verbatim>\<open>key=value\<close>
  format and starting the program with \<^verbatim>\<open>--config\<close> on that file gives exactly this configuration,
  whatever the settings before.\<close>

theorem config_file_roundtrip:
  assumes "config_ranges c" and "config_accepted c"
    and "list_all plain_char (can_ifname c)" and "list_all plain_char (cfg_log_dir c)"
    and "fs path = FileData (config_text c) False"
  shows "app_config_parse fs [''--config'', path] cfg = Parsed c"
  using load_config_text[OF assms(1-4), of fs path cfg] assms(2,5) by (simp add: app_config_parse_def Let_def)

theorem config_file_roundtrip_witness:
  "app_config_parse (\<lambda>_. FileData (config_text (app_config_init_defaults\<lparr>ws_port := 9000\<rparr>)) False)
     [''--config'', ''f''] app_config_init_defaults = Parsed (app_config_init_defaults\<lparr>ws_port := 9000\<rparr>)"
proof (rule config_file_roundtrip)
  show "config_ranges (app_config_init_defaults\<lparr>ws_port := 9000\<rparr>)" by (simp add: defaults_ok)
  show "config_accepted (app_config_init_defaults\<lparr>ws_port := 9000\<rparr>)"
    by (simp add: config_accepted_def app_config_init_defaults_def)
qed (simp_all add: app_config_init_defaults_def plain_char_def isspace_def)

text \<open>C36.  The command line overrides the file, and its last option wins: appending \<^verbatim>\<open>--port p\<close> to a
  command line that parses changes the port of the result, and nothing else, to the number read from
  \<open>p\<close> modulo \<open>2 ^ 16\<close>; when that is zero the configuration is rejected.\<close>

theorem port_option_overrides:
  assumes "app_config_parse fs xs cfg = Parsed c" and "p \<noteq> ''--config''"
  shows "app_config_parse fs (xs @ [''--port'', p]) cfg =
    (if (word_of_int (atoi p) :: u16) = 0 then Invalid else Parsed (c\<lparr>ws_port := word_of_int (atoi p)\<rparr>))"
proof -
  obtain path u where path: "config_path_of xs (APP_DEFAULT_CONFIG_PATH, False) = Some (path, u)"
    using assms(1) by (auto simp: app_config_parse_def split: option.splits)
  then have path': "config_path_of (xs @ [''--port'', p]) (APP_DEFAULT_CONFIG_PATH, False) = Some (path, u)"
    using assms(2) by (intro config_path_append) auto
  obtain c1 where c1: "(case app_config_load_file fs cfg path of Inr cfg1 \<Rightarrow> Some cfg1
      | Inl err \<Rightarrow> if u \<or> err \<noteq> ENOENT then None else Some cfg) = Some c1"
    and c: "apply_args xs c1 = Some c" "config_accepted c"
    using assms(1) path by (auto simp: app_config_parse_def Let_def split: option.splits if_splits)
  have "apply_args (xs @ [''--port'', p]) c1 = Some (c\<lparr>ws_port := word_of_int (atoi p)\<rparr>)"
    using apply_args_append[OF c(1), of "[''--port'', p]"] by simp
  then show ?thesis
    using c1 c(2) path' by (simp add: app_config_parse_def Let_def config_accepted_def)
qed

theorem port_option_overrides_witness:
  "app_config_parse no_files [''--port'', ''65536''] app_config_init_defaults = Invalid"
proof -
  have "atoi ''65536'' = 65536" by (simp add: clib_simps)
  then show ?thesis using port_option_overrides[OF parse_no_files, of "''65536''"] by simp
qed

end
