(* ===== verification/Program.thy ===== *)
theory Program
  imports System AppConfig
begin

text \<open>
  \<^verbatim>\<open>main\<close> as a whole: the two loops that end only by a signal or a failing \<^verbatim>\<open>epoll_wait\<close>, the program from the
  command line to its exit status, and what it holds at its end, read off the calls in the trace.
\<close>

definition main_program ::
  "env \<Rightarrow> file_system \<Rightarrow> string list \<Rightarrow> dirent list \<Rightarrow> (nat \<Rightarrow> turn_input) \<Rightarrow> (nat \<Rightarrow> action list) \<Rightarrow>
   (int \<times> world option) option" where
  "main_program e fs args d inp others =
     (case app_config_parse fs args app_config_init_defaults of
        Parsed cfg \<Rightarrow>
          (case main_init e (initial_world cfg d) of
             (None, w) \<Rightarrow> Some (1, Some w)
           | (Some n, w) \<Rightarrow>
               (case (if testing_mode cfg then testing_loop e inp 0 w
                      else map_option snd (main_loop e inp 0 (n, w))) of
                  None \<Rightarrow> None
                | Some w' \<Rightarrow> Some (0, Some (shutdown_runtime e others w'))))
      | Invalid \<Rightarrow> Some (1, None)
      | Usage \<Rightarrow> Some (1, None))"

section \<open>A turn opens and closes nothing\<close>

lemma on_timer_handles:
  assumes "on_timer e (n, w) = Some (n', w')" and "control_inv w"
  shows "handles (app w') = handles (app w) \<and> stop (app w') = stop (app w) \<and> sys_log (trace w') = sys_log (trace w)"
proof -
  have "sys_log (trace w') = sys_log (trace w)"
    using assms(1) by (auto simp: on_timer_def Let_def case_prod_beta flush_frame split: if_splits option.splits)
  moreover have "handles (app (wiggle_process e w)) = handles (app w)" "stop (app (wiggle_process e w)) = stop (app w)"
    by (subst wiggle_process_ok(2) [OF control_invD(1) [OF assms(2)]], simp add: handles_def)+
  ultimately show ?thesis
    using same_but_tablesD[OF on_timer_rest(1) [OF assms(1)]] by (simp add: handles_def)
qed

lemma drain_handles:
  "handles (app (drain_can e w)) = handles (app w)" "stop (app (drain_can e w)) = stop (app w)"
  "sys_log (trace (drain_can e w)) = sys_log (trace w)"
  using drain_can_tables[of w e] same_but_tablesD[of "app w" "app (drain_can e w)"] by (simp_all add: handles_def)

lemma loop_turn_handles:
  "loop_turn e fds s = Some s' \<Longrightarrow> control_inv (snd s) \<Longrightarrow>
   handles (app (snd s')) = handles (app (snd s)) \<and> stop (app (snd s')) = stop (app (snd s)) \<and>
   sys_log (trace (snd s')) = sys_log (trace (snd s))"
proof (induction e fds s rule: loop_turn.induct)
  case (1 e s)
  then show ?case by simp
next
  case (2 e fd fds s)
  have timer: "handles (app (snd s1)) = handles (app (snd s)) \<and> stop (app (snd s1)) = stop (app (snd s)) \<and>
      sys_log (trace (snd s1)) = sys_log (trace (snd s)) \<and> control_inv (snd s1)" if "on_timer e s = Some s1" for s1
    using that "2.prems"(2) on_timer_handles[of e "fst s" "snd s" "fst s1" "snd s1"]
      inv_on_timer[of e "fst s" "snd s" "fst s1" "snd s1"] by simp
  show ?case
    using 2 timer inv_drain[of "snd s" e] by (auto simp: drain_handles split: if_splits option.splits)
qed

section \<open>The loops\<close>

text \<open>What ends a loop: a signal, and in the event loop a failing \<^verbatim>\<open>epoll_wait\<close>.\<close>

definition signalled :: "turn_input \<Rightarrow> bool" where
  "signalled i \<longleftrightarrow> ActSignal \<in> set (before_test i) \<or> ActSignal \<in> set (while_waiting i)"

text \<open>What the loops keep.\<close>

definition keeps :: "world \<Rightarrow> world \<Rightarrow> bool" where
  "keeps w w' \<longleftrightarrow> control_inv w' \<and> handles (app w') = handles (app w) \<and> sys_log (trace w') = sys_log (trace w)"

lemma keeps_trans: "keeps u v \<Longrightarrow> keeps v w \<Longrightarrow> keeps u w"
  by (simp add: keeps_def)

lemma keeps_perform: "control_inv w \<Longrightarrow> keeps w (perform e as w)"
  using perform_handles[of w e "as"] inv_perform[of w e "as"] by (simp add: keeps_def)

lemma keeps_loop_turn: "loop_turn e fds s = Some s' \<Longrightarrow> control_inv (snd s) \<Longrightarrow> keeps (snd s) (snd s')"
  using loop_turn_handles[of e fds s s'] inv_loop_turn[of e fds s s'] by (simp add: keeps_def)

lemma stop_perform: "control_inv w \<Longrightarrow> stop (app (perform e as w)) \<longleftrightarrow> stop (app w) \<or> ActSignal \<in> set as"
  using perform_handles[of w e "as"] by simp

lemma stop_loop_turn:
  "loop_turn e fds s = Some s' \<Longrightarrow> control_inv (snd s) \<Longrightarrow> stop (app (snd s')) = stop (app (snd s))"
  using loop_turn_handles[of e fds s s'] by simp

lemma testing_loop_stopped:
  "control_inv w \<Longrightarrow> stop (app w) \<or> ActSignal \<in> set (before_test (inp k)) \<Longrightarrow>
   testing_loop e inp k w = Some (perform e (before_test (inp k)) w)"
  by (subst testing_loop.simps) (simp add: stop_perform)

lemma testing_loop_returns:
  "control_inv w \<Longrightarrow> signalled (inp (k + m)) \<Longrightarrow> \<exists>w'. testing_loop e inp k w = Some w'"
proof (induction m arbitrary: k w)
  case 0
  let ?w2 = "perform e (while_waiting (inp k)) (perform e (before_test (inp k)) w)"
  have inv: "control_inv ?w2" using 0 by (intro inv_perform)
  show ?case
  proof (cases "stop (app w) \<or> ActSignal \<in> set (before_test (inp k))")
    case True
    then show ?thesis using testing_loop_stopped[OF "0.prems"(1)] by blast
  next
    case False
    then have "stop (app ?w2)" using 0 by (simp add: signalled_def stop_perform inv_perform)
    then have "\<exists>w'. testing_loop e inp (Suc k) ?w2 = Some w'" using testing_loop_stopped[OF inv] by blast
    then show ?thesis by (subst testing_loop.simps) (simp add: Let_def)
  qed
next
  case (Suc m)
  let ?w2 = "perform e (while_waiting (inp k)) (perform e (before_test (inp k)) w)"
  have "control_inv ?w2" using Suc.prems by (intro inv_perform)
  then have "\<exists>w'. testing_loop e inp (Suc k) ?w2 = Some w'" using Suc.IH[of ?w2 "Suc k"] Suc.prems by simp
  then show ?case by (subst testing_loop.simps) (simp add: Let_def)
qed

lemma testing_loop_result:
  "testing_loop e inp k w = Some w' \<Longrightarrow>
   control_inv w \<longrightarrow> keeps w w' \<and> (stop (app w) \<or> (\<exists>m \<ge> k. signalled (inp m)))"
proof (induction rule: testing_loop.raw_induct [rotated, consumes 1, case_names step])
  case (step loop e inp k w w')
  show ?case
  proof
    assume inv: "control_inv w"
    let ?w1 = "perform e (before_test (inp k)) w" let ?w2 = "perform e (while_waiting (inp k)) ?w1"
    have i1: "control_inv ?w1" and i2: "control_inv ?w2" using inv by (simp_all add: inv_perform)
    have k2: "keeps w ?w2" by (rule keeps_trans [OF keeps_perform [OF inv] keeps_perform [OF i1]])
    show "keeps w w' \<and> (stop (app w) \<or> (\<exists>m \<ge> k. signalled (inp m)))"
    proof (cases "stop (app ?w1)")
      case True
      then show ?thesis
        using step(2) inv keeps_perform[OF inv, of e] by (auto simp: Let_def stop_perform signalled_def)
    next
      case False
      then have "loop e inp (Suc k) ?w2 = Some w'" using step(2) by (simp add: Let_def)
      from step(1)[OF this] i2 have r: "keeps ?w2 w'" "stop (app ?w2) \<or> (\<exists>m \<ge> Suc k. signalled (inp m))" by blast+
      have "stop (app ?w2) \<Longrightarrow> signalled (inp k)" using False i1 by (simp add: stop_perform signalled_def)
      then show ?thesis using keeps_trans[OF k2 r(1)] r(2) by (meson Suc_leD le_refl)
    qed
  qed
qed

lemma main_loop_stopped:
  "control_inv (snd s) \<Longrightarrow> stop (app (snd s)) \<or> ActSignal \<in> set (before_test (inp k)) \<Longrightarrow>
   \<exists>s'. main_loop e inp k s = Some s'"
  by (subst main_loop.simps) (simp add: stop_perform)

definition ends_turn :: "turn_input \<Rightarrow> bool" where
  "ends_turn i \<longleftrightarrow> signalled i \<or> answer i = EpollFail"

text \<open>One turn: the loop returns, or goes on from a world the turn led to.\<close>

lemma main_loop_turn:
  assumes "clock_sane e" and "control_inv (snd s)"
    and "\<And>s2. control_inv (snd s2) \<Longrightarrow> \<not> ends_turn (inp k) \<or> stop (app (snd s2)) \<Longrightarrow> \<exists>s'. main_loop e inp (Suc k) s2 = Some s'"
  shows "\<exists>s'. main_loop e inp k s = Some s'"
proof (cases "stop (app (snd s)) \<or> ActSignal \<in> set (before_test (inp k))")
  case True
  then show ?thesis using main_loop_stopped[OF assms(2)] by blast
next
  case False
  let ?w1 = "perform e (before_test (inp k)) (snd s)" let ?w2 = "perform e (while_waiting (inp k)) ?w1"
  have i1: "control_inv ?w1" and i2: "control_inv ?w2" using assms(2) by (simp_all add: inv_perform)
  have nst: "\<not> stop (app ?w1)" using False assms(2) by (simp add: stop_perform)
  have stop2: "answer (inp k) \<noteq> EpollFail \<Longrightarrow> \<not> ends_turn (inp k) \<or> stop (app ?w2)"
    using False i1 by (auto simp: ends_turn_def signalled_def stop_perform)
  show ?thesis
  proof (cases "answer (inp k)")
    case EpollFail
    then show ?thesis using nst by (subst main_loop.simps) (simp add: Let_def)
  next
    case EpollIntr
    then have "\<exists>s'. main_loop e inp (Suc k) (fst s, ?w2) = Some s'" using assms(3)[of "(fst s, ?w2)"] i2 stop2 by simp
    then show ?thesis using nst EpollIntr by (subst main_loop.simps) (simp add: Let_def)
  next
    case (EpollReady fds)
    obtain s2 where t: "loop_turn e fds (fst s, ?w2) = Some s2" using loop_turn_returns[OF assms(1)] by blast
    have "control_inv (snd s2)" "stop (app (snd s2)) = stop (app ?w2)"
      using inv_loop_turn[OF t] stop_loop_turn[OF t] i2 by simp_all
    then have "\<exists>s'. main_loop e inp (Suc k) s2 = Some s'" using assms(3)[of s2] stop2 EpollReady by simp
    then show ?thesis using nst EpollReady t by (subst main_loop.simps) (simp add: Let_def)
  qed
qed

lemma main_loop_returns:
  "clock_sane e \<Longrightarrow> control_inv (snd s) \<Longrightarrow> ends_turn (inp (k + m)) \<Longrightarrow> \<exists>s'. main_loop e inp k s = Some s'"
proof (induction m arbitrary: k s)
  case 0
  show ?case by (rule main_loop_turn [OF "0.prems"(1,2)]) (use "0.prems" main_loop_stopped in auto)
next
  case (Suc m)
  show ?case by (rule main_loop_turn [OF Suc.prems(1,2)]) (use Suc.IH[of _ "Suc k"] Suc.prems in auto)
qed

lemma main_loop_result:
  "main_loop e inp k s = Some s' \<Longrightarrow>
   control_inv (snd s) \<longrightarrow> keeps (snd s) (snd s') \<and> (stop (app (snd s)) \<or> (\<exists>m \<ge> k. ends_turn (inp m)))"
proof (induction rule: main_loop.raw_induct [rotated, consumes 1, case_names step])
  case (step loop e inp k s s')
  show ?case
  proof
    assume inv: "control_inv (snd s)"
    let ?w1 = "perform e (before_test (inp k)) (snd s)" let ?w2 = "perform e (while_waiting (inp k)) ?w1"
    have i1: "control_inv ?w1" and i2: "control_inv ?w2" using inv by (simp_all add: inv_perform)
    have k2: "keeps (snd s) ?w2" by (rule keeps_trans [OF keeps_perform [OF inv] keeps_perform [OF i1]])
    show "keeps (snd s) (snd s') \<and> (stop (app (snd s)) \<or> (\<exists>m \<ge> k. ends_turn (inp m)))"
    proof (cases "stop (app ?w1)")
      case True
      then show ?thesis
        using step(2) inv keeps_perform[OF inv, of e] by (auto simp: Let_def stop_perform ends_turn_def signalled_def)
    next
      case False
      have on: "keeps (snd s) (snd s') \<and> (\<exists>m \<ge> k. ends_turn (inp m))"
        if l: "loop e inp (Suc k) s2 = Some s'" and s2: "keeps ?w2 (snd s2)" "stop (app (snd s2)) = stop (app ?w2)" for s2
      proof -
        have r: "keeps (snd s2) (snd s')" "stop (app (snd s2)) \<or> (\<exists>m \<ge> Suc k. ends_turn (inp m))"
          using step(1)[OF l] s2(1) by (auto simp: keeps_def)
        have "stop (app ?w2) \<Longrightarrow> ends_turn (inp k)" using False i1 by (simp add: stop_perform ends_turn_def signalled_def)
        then show ?thesis using keeps_trans[OF keeps_trans [OF k2 s2(1)] r(1)] r(2) s2(2) by (meson Suc_leD le_refl)
      qed
      show ?thesis
      proof (cases "answer (inp k)")
        case EpollFail
        then show ?thesis using step(2) False k2 by (auto simp: Let_def ends_turn_def)
      next
        case EpollIntr
        then have "loop e inp (Suc k) (fst s, ?w2) = Some s'" using step(2) False by (simp add: Let_def)
        then show ?thesis using on[of "(fst s, ?w2)"] i2 by (simp add: keeps_def)
      next
        case (EpollReady fds)
        then obtain s2 where t: "loop_turn e fds (fst s, ?w2) = Some s2" and l: "loop e inp (Suc k) s2 = Some s'"
          using step(2) False by (auto simp: Let_def split: option.splits)
        then show ?thesis using on[OF l] i2 keeps_loop_turn[OF t] stop_loop_turn[OF t] by simp
      qed
    qed
  qed
qed

section \<open>What is open\<close>

text \<open>Whether the server exists, read off the trace like the open descriptors.\<close>

fun server_up :: "trace \<Rightarrow> bool" where
  "server_up [] \<longleftrightarrow> False"
| "server_up (EvSys (SysWsCreate p m) h # t) \<longleftrightarrow> h \<noteq> 0"
| "server_up (EvSys SysWsDestroy r # t) \<longleftrightarrow> False"
| "server_up (_ # t) \<longleftrightarrow> server_up t"

definition sys_trace :: "(sys_op \<times> int) list \<Rightarrow> trace" where
  "sys_trace l = rev (map (\<lambda>(op, r). EvSys op r) l)"

lemma open_fds_log: "open_fds t = open_fds (sys_trace (sys_log t))"
  by (induction t rule: open_fds.induct) (simp_all add: sys_trace_def)

lemma server_up_log: "server_up t = server_up (sys_trace (sys_log t))"
  by (induction t rule: server_up.induct) (simp_all add: sys_trace_def)

lemma open_same_log:
  "sys_log t' = sys_log t \<Longrightarrow> open_fds t' = open_fds t \<and> server_up t' = server_up t"
  using open_fds_log[of t] open_fds_log[of t'] server_up_log[of t] server_up_log[of t'] by simp

text \<open>The handles in the context are exactly what is open.\<close>

definition tidy :: "world \<Rightarrow> bool" where
  "tidy w \<longleftrightarrow> open_fds (trace w) = filter ((\<le>) 0) [timer_fd (app w), epoll_fd (app w), can_fd (app w)] \<and>
     server_up (trace w) = ws (app w)"

lemma tidy_same: "tidy w \<Longrightarrow> handles (app w') = handles (app w) \<Longrightarrow> sys_log (trace w') = sys_log (trace w) \<Longrightarrow> tidy w'"
  using open_same_log[of "trace w'" "trace w"] by (simp add: tidy_def handles_def)

lemma tidy_keeps: "keeps w w' \<Longrightarrow> tidy w \<Longrightarrow> tidy w'"
  using tidy_same[of w w'] by (simp add: keeps_def)

lemma tidy_quiet: "quiet w w' \<Longrightarrow> tidy w \<Longrightarrow> tidy w'"
  using tidy_same[of w w'] by (simp add: quietD)

lemma tidy_initial: "tidy (initial_world cfg d)"
  by (simp add: tidy_def initial_world_def app_context_init_def)

lemma sys_open [simp]:
  "open_fds (trace (snd (sys e SysTimerCreate w))) = (if 0 \<le> fst (sys e SysTimerCreate w)
     then fst (sys e SysTimerCreate w) # open_fds (trace w) else open_fds (trace w))"
  "open_fds (trace (snd (sys e SysEpollCreate w))) = (if 0 \<le> fst (sys e SysEpollCreate w)
     then fst (sys e SysEpollCreate w) # open_fds (trace w) else open_fds (trace w))"
  "open_fds (trace (snd (sys e (SysClose fd) w))) = remove1 fd (open_fds (trace w))"
  "open_fds (trace (snd (sys e (SysTimerSet a b c) w))) = open_fds (trace w)"
  "open_fds (trace (snd (sys e (SysEpollAdd a b) w))) = open_fds (trace w)"
  "open_fds (trace (snd (sys e (SysWsCreate p m) w))) = open_fds (trace w)"
  "open_fds (trace (snd (sys e SysWsStart w))) = open_fds (trace w)"
  "open_fds (trace (snd (sys e SysWsStop w))) = open_fds (trace w)"
  "open_fds (trace (snd (sys e SysWsJoin w))) = open_fds (trace w)"
  "open_fds (trace (snd (sys e SysWsDestroy w))) = open_fds (trace w)"
  by (simp_all add: sys_def Let_def)

lemma sys_server [simp]:
  "server_up (trace (snd (sys e SysTimerCreate w))) = server_up (trace w)"
  "server_up (trace (snd (sys e SysEpollCreate w))) = server_up (trace w)"
  "server_up (trace (snd (sys e (SysClose fd) w))) = server_up (trace w)"
  "server_up (trace (snd (sys e (SysTimerSet a b c) w))) = server_up (trace w)"
  "server_up (trace (snd (sys e (SysEpollAdd a b) w))) = server_up (trace w)"
  "server_up (trace (snd (sys e (SysWsCreate p m) w))) = (fst (sys e (SysWsCreate p m) w) \<noteq> 0)"
  "server_up (trace (snd (sys e SysWsStart w))) = server_up (trace w)"
  "server_up (trace (snd (sys e SysWsStop w))) = server_up (trace w)"
  "server_up (trace (snd (sys e SysWsJoin w))) = server_up (trace w)"
  "server_up (trace (snd (sys e SysWsDestroy w))) = False"
  by (simp_all add: sys_def Let_def)

lemma can_open_tidy:
  "open_fds (trace (snd (can_bus_open e i w))) = (if fst (can_bus_open e i w) < 0 then open_fds (trace w)
     else fst (can_bus_open e i w) # open_fds (trace w))"
  "server_up (trace (snd (can_bus_open e i w))) = server_up (trace w)"
  by (simp_all add: can_bus_open_def sys_def Let_def)

lemma tidy_call:
  "tidy w \<Longrightarrow> tidy (snd (sys e (SysTimerSet a b c) w))" "tidy w \<Longrightarrow> tidy (snd (register_fd e x y w))"
  by (simp_all add: tidy_def register_fd_def)

lemma tidy_init_timer:
  assumes "tidy w" and "timer_fd (app w) < 0"
  shows "tidy (snd (init_timer e w))"
proof -
  obtain tfd w1 where r: "sys e SysTimerCreate w = (tfd, w1)" by fastforce
  let ?v = "upd_app (\<lambda>a. a\<lparr>timer_fd := tfd\<rparr>) w1"
  have "open_fds (trace w1) = (if 0 \<le> tfd then tfd # open_fds (trace w) else open_fds (trace w))"
    "server_up (trace w1) = server_up (trace w)" "app w1 = app w"
    using sys_open(1)[of e w] sys_server(1)[of e w] sys_frame(1)[of e SysTimerCreate w] r by simp_all
  then have "tidy ?v" using assms by (simp add: tidy_def)
  then show ?thesis by (simp add: init_timer_def r Let_def case_prod_beta tidy_call)
qed

lemma register_frame [simp]: "app (snd (register_fd e x y w)) = app w"
  by (simp add: register_fd_def)

lemma tidy_init_epoll:
  assumes "tidy w" and "timer_fd (app w) < 0" and "epoll_fd (app w) < 0"
  shows "tidy (snd (init_epoll e w))"
proof -
  obtain fd w1 where r: "sys e SysEpollCreate w = (fd, w1)" by fastforce
  let ?v = "upd_app (\<lambda>a. a\<lparr>epoll_fd := fd\<rparr>) w1"
  have w1: "open_fds (trace w1) = (if 0 \<le> fd then fd # open_fds (trace w) else open_fds (trace w))"
    "server_up (trace w1) = server_up (trace w)" "app w1 = app w"
    using sys_open(2)[of e w] sys_server(2)[of e w] sys_frame(1)[of e SysEpollCreate w] r by simp_all
  then have "tidy ?v" using assms by (simp add: tidy_def)
  then show ?thesis
    using assms(2) w1(3) by (simp add: init_epoll_def r Let_def case_prod_beta tidy_call tidy_init_timer)
qed

lemma tidy_init_runtime:
  assumes "tidy w" and "timer_fd (app w) < 0" and "epoll_fd (app w) < 0" and "can_fd (app w) < 0"
  shows "tidy (snd (init_runtime e w))"
proof -
  obtain rc w1 where c: "(if auto_config_can (config (app w))
    then can_bus_configure_interface e (can_ifname (config (app w))) (can_bitrate (config (app w))) w else (0, w)) = (rc, w1)"
    by fastforce
  have q: "quiet w w1"
    using c by (metis quiet_configure quiet_refl snd_conv)
  have t1: "tidy w1" by (rule tidy_quiet [OF q assms(1)])
  obtain fd w2 where r: "can_bus_open e (can_ifname (config (app w))) w1 = (fd, w2)" by fastforce
  have w2: "open_fds (trace w2) = (if fd < 0 then open_fds (trace w1) else fd # open_fds (trace w1))"
    "server_up (trace w2) = server_up (trace w1)" "app w2 = app w"
    using can_open_tidy[of e "can_ifname (config (app w))" w1] can_open_app[of e "can_ifname (config (app w))" w1]
      r quietD(1)[OF q] by simp_all
  let ?v = "upd_app (\<lambda>a. a\<lparr>can_fd := fd\<rparr>) w2"
  have v: "tidy ?v" using t1 assms(2-) quietD(1)[OF q] w2 by (simp add: tidy_def)
  then have "tidy (snd (init_epoll e ?v))" using assms(2,3) w2(3) by (intro tidy_init_epoll) simp_all
  with v t1 assms(1) show ?thesis by (simp add: init_runtime_def Let_def c r)
qed

lemma tidy_ws_start: "tidy w \<Longrightarrow> \<not> ws (app w) \<Longrightarrow> tidy (snd (ws_bridge_start e w))"
  by (simp add: tidy_def ws_bridge_start_def case_prod_beta)

lemma tidy_perform: "control_inv w \<Longrightarrow> tidy w \<Longrightarrow> tidy (perform e as w)"
  using tidy_keeps[OF keeps_perform] by blast

lemma tidy_ws_stop:
  assumes "control_inv w" and "tidy w"
  shows "tidy (ws_bridge_stop e others w)"
proof -
  let ?w1 = "perform e (others 0) (snd (sys e SysWsStop w))"
  let ?w2 = "perform e (others 1) (snd (sys e SysWsJoin ?w1))"
  have 1: "control_inv ?w1" by (intro inv_perform inv_sys assms)
  have "tidy (snd (sys e SysWsStop w))" using assms(2) by (simp add: tidy_def)
  then have "tidy ?w1" by (rule tidy_perform [OF inv_sys [OF assms(1)]])
  then have "tidy (snd (sys e SysWsJoin ?w1))" by (simp add: tidy_def)
  then have "tidy ?w2" by (rule tidy_perform [OF inv_sys [OF 1]])
  then show ?thesis using assms(2) by (simp add: ws_bridge_stop_def Let_def tidy_def)
qed

lemma tidy_close:
  "tidy w \<Longrightarrow> tidy (close_timer e w)"
  "tidy w \<Longrightarrow> timer_fd (app w) < 0 \<Longrightarrow> tidy (close_epoll e w)"
  "tidy w \<Longrightarrow> timer_fd (app w) < 0 \<Longrightarrow> epoll_fd (app w) < 0 \<Longrightarrow> tidy (can_bus_close e w)"
  by (simp_all add: tidy_def close_timer_def close_epoll_def can_bus_close_def)

lemma tidy_shut_server:
  assumes "control_inv w" and "tidy w"
  shows "tidy (shut_server e others w)"
proof -
  let ?v = "firing_sequence_request_abort w"
  let ?w1 = "perform e (others 0) ?v" let ?w2 = "wiggle_stop_all e True ?w1"
  have 0: "control_inv ?v" by (rule inv_request_abort [OF assms(1)])
  have 1: "control_inv ?w1" by (rule inv_perform [OF 0])
  have 2: "control_inv ?w2" by (rule inv_stop_all [OF 1])
  have "tidy ?v" using assms(2) by (rule tidy_same) (simp_all add: firing_sequence_request_abort_def handles_def)
  then have "tidy ?w1" by (rule tidy_perform [OF 0])
  then have "tidy ?w2" by (rule tidy_same) (simp_all add: wiggle_stop_all_ok [OF control_invD(1) [OF 1]] handles_def)
  then have "tidy (perform e (others 1) ?w2)" by (rule tidy_perform [OF 2])
  then show ?thesis unfolding shut_server_def by (rule tidy_ws_stop [OF inv_perform [OF 2]])
qed

text \<open>Nothing is held at the end: no descriptor and no server, by the handles and by the calls made, and no
  log file.\<close>

definition all_closed :: "world \<Rightarrow> bool" where
  "all_closed w \<longleftrightarrow> open_fds (trace w) = [] \<and> \<not> server_up (trace w) \<and>
     timer_fd (app w) < 0 \<and> epoll_fd (app w) < 0 \<and> can_fd (app w) < 0 \<and> \<not> ws (app w) \<and> fp (logger w) = None"

lemma shutdown_all_closed:
  assumes "control_inv w" and "tidy w"
  shows "all_closed (shutdown_runtime e others w)"
proof -
  let ?w3 = "perform e (others 4) (shut_server e others w)"
  let ?w4 = "perform e (others 5) (close_timer e ?w3)" let ?w5 = "perform e (others 6) (close_epoll e ?w4)"
  let ?w6 = "perform e (others 7) (can_bus_close e ?w5)" let ?fin = "shutdown_runtime e others w"
  note s = inv_shut_server[OF assms(1), of e others]
  have i: "control_inv ?w3" "control_inv ?w4" "control_inv ?w5" "control_inv ?w6"
    by (intro inv_perform inv_close s(1))+
  have fds: "timer_fd (app ?w4) < 0" "timer_fd (app ?w5) < 0" "epoll_fd (app ?w5) < 0"
    using perform_handles[OF inv_close(1) [OF i(1)], of e "others 5" e] perform_handles[OF inv_close(2) [OF i(2)], of e "others 6" e]
    by (simp_all add: handles_def)
  have "tidy ?w3" by (rule tidy_perform [OF s(1) tidy_shut_server [OF assms]])
  then have "tidy ?w4" by (rule tidy_perform [OF inv_close(1) [OF i(1)] tidy_close(1)])
  then have "tidy ?w5" using fds by (intro tidy_perform [OF inv_close(2) [OF i(2)] tidy_close(2)])
  then have "tidy ?w6" using fds by (intro tidy_perform [OF inv_close(3) [OF i(3)] tidy_close(3)])
  moreover have eq: "?fin = logger_close e ?w6" by (simp add: shutdown_runtime_def Let_def shut_server_def)
  ultimately have "tidy ?fin" by (simp add: tidy_quiet [OF quiet_logger_close])
  moreover have "timer_fd (app ?fin) < 0 \<and> epoll_fd (app ?fin) < 0 \<and> can_fd (app ?fin) < 0 \<and> \<not> ws (app ?fin)"
    using shutdown_state[OF assms(1), of e others] by (simp add: shut_state_def handles_def min_def)
  moreover have "fp (logger ?fin) = None" by (simp add: eq logger_closed)
  ultimately show ?thesis by (simp add: all_closed_def tidy_def)
qed

section \<open>Start-up\<close>

lemma mkdir_all_logger: "logger (snd (mkdir_all e ps w)) = logger w"
  by (induction ps arbitrary: w) (simp_all add: case_prod_beta)

lemma logger_open_failed: "\<not> fst (logger_open e en p w) \<Longrightarrow> fp (logger (snd (logger_open e en p w))) = None"
  by (auto simp: logger_open_def ensure_directory_exists_def zero_logger_def Let_def case_prod_beta mkdir_all_logger
      split: if_splits option.splits)

text \<open>A start-up that fails has released everything; one that succeeds leads to a tidy world.\<close>

lemma main_init_tidy:
  assumes "main_init e (initial_world cfg d) = (r, w)"
  shows "if r = None then all_closed w else tidy w"
proof -
  let ?w0 = "initial_world cfg d"
  let ?open = "logger_open e (logging_enabled (config (app ?w0))) (cfg_log_dir (config (app ?w0))) ?w0"
  let ?w1 = "snd ?open" let ?w2 = "snd (init_runtime e ?w1)" let ?w3 = "snd (ws_bridge_start e ?w2)"
  have f1: "same_but_fds ?w0 ?w1" by (rule same_but_fds_quiet) blast
  have f2: "same_but_fds ?w0 ?w2" by (rule same_but_fds_trans [OF f1 init_runtime_fds])
  have f3: "same_but_fds ?w0 ?w3" by (rule same_but_fds_trans [OF f2 ws_bridge_start_fds])
  have inv: "control_inv ?w2" "control_inv ?w3"
    using control_inv_fds[OF f2 inv_initial_world] control_inv_fds[OF f3 inv_initial_world] .
  have a1: "app ?w1 = app ?w0" using quietD(1)[OF quiet_logger_open] .
  have t1: "tidy ?w1" by (rule tidy_quiet [OF quiet_logger_open tidy_initial])
  have t2: "tidy ?w2" using a1 by (intro tidy_init_runtime [OF t1]) (simp_all add: initial_world_def app_context_init_def)
  have "ws (app ?w2) = ws (app ?w1)" by (rule init_runtime_ws)
  then have "\<not> ws (app ?w2)" using a1 by (simp add: initial_world_def app_context_init_def)
  then have t3: "tidy ?w3" by (rule tidy_ws_start [OF t2])
  have closed: "all_closed (shutdown_runtime e (\<lambda>_. []) ?w2)" "all_closed (shutdown_runtime e (\<lambda>_. []) ?w3)"
    by (rule shutdown_all_closed [OF inv(1) t2], rule shutdown_all_closed [OF inv(2) t3])
  have "\<not> fst ?open \<Longrightarrow> all_closed ?w1"
    using logger_open_failed[of e _ _ ?w0] t1 a1 by (simp add: all_closed_def tidy_def) (simp add: initial_world_def app_context_init_def)
  moreover have "tidy (snd (heartbeat_now_ms e ?w3))" by (rule tidy_quiet [OF quiet_heartbeat_now t3])
  ultimately show ?thesis
    using assms closed by (auto simp: main_init_def case_prod_beta split: if_splits)
qed

section \<open>Properties\<close>

text \<open>C28.  What becomes of a run of the program, for every command line, configuration file, environment with a
  sane clock, and behaviour of the other threads.  A rejected configuration and a failed start-up end with
  status 1.  Otherwise the program runs until a signal arrives or, outside testing mode, \<^verbatim>\<open>epoll_wait\<close> fails:
  then it ends with status 0, and without such an event it never ends.  Whenever it ends after a start-up,
  failed or not, every descriptor it opened has been closed, the server destroyed and the log file closed.\<close>

theorem program_releases:
  assumes "clock_sane e"
  shows "case app_config_parse fs args app_config_init_defaults of
      Parsed cfg \<Rightarrow>
        (case main_init e (initial_world cfg d) of
           (None, w) \<Rightarrow> main_program e fs args d inp others = Some (1, Some w) \<and> all_closed w
         | (Some n, w) \<Rightarrow>
             if \<exists>k. signalled (inp k) \<or> (\<not> testing_mode cfg \<and> answer (inp k) = EpollFail)
             then \<exists>w'. main_program e fs args d inp others = Some (0, Some w') \<and> all_closed w'
             else main_program e fs args d inp others = None)
    | _ \<Rightarrow> main_program e fs args d inp others = Some (1, None)"
proof (cases "app_config_parse fs args app_config_init_defaults")
  case (Parsed cfg)
  obtain r w where i: "main_init e (initial_world cfg d) = (r, w)" by fastforce
  note t = main_init_tidy[OF i]
  show ?thesis
  proof (cases r)
    case None
    then show ?thesis using i Parsed t by (simp add: main_program_def)
  next
    case (Some n)
    have f: "same_but_fds (initial_world cfg d) w" using main_init_fds i Some by simp
    have inv: "control_inv w" by (rule control_inv_fds [OF f inv_initial_world])
    have st: "\<not> stop (app w)"
      using f unfolding same_but_fds_def by (cases "app w") (simp add: initial_world_def app_context_init_def)
    let ?loop = "if testing_mode cfg then testing_loop e inp 0 w else map_option snd (main_loop e inp 0 (n, w))"
    let ?ends = "\<exists>k. signalled (inp k) \<or> (\<not> testing_mode cfg \<and> answer (inp k) = EpollFail)"
    have run: "\<exists>w'. ?loop = Some w'" if ends: "?ends"
    proof (cases "testing_mode cfg")
      case True
      then show ?thesis using ends testing_loop_returns[OF inv, of inp 0 _ e] by auto
    next
      case False
      then obtain k where "ends_turn (inp (0 + k))" using ends by (auto simp: ends_turn_def)
      from main_loop_returns[where inp = inp and k = 0 and s = "(n, w)", OF assms _ this] inv False show ?thesis by auto
    qed
    have keep: "keeps w w' \<and> ?ends" if "?loop = Some w'" for w'
      using that testing_loop_result[of e inp 0 w w'] main_loop_result[of e inp 0 "(n, w)"] inv st
      by (auto simp: ends_turn_def split: if_splits)
    have closed: "all_closed (shutdown_runtime e others w')" if "?loop = Some w'" for w'
      using keep[OF that] t Some by (intro shutdown_all_closed) (auto simp: keeps_def intro: tidy_keeps)
    have p: "main_program e fs args d inp others =
        (case ?loop of None \<Rightarrow> None | Some w' \<Rightarrow> Some (0, Some (shutdown_runtime e others w')))"
      using i Parsed Some by (simp add: main_program_def)
    show ?thesis
    proof (cases ?ends)
      case True
      then obtain w' where "?loop = Some w'" using run by blast
      then show ?thesis using i Parsed Some p closed True by auto
    next
      case False
      then have "?loop = None" using keep by (cases ?loop) blast+
      then show ?thesis using i Parsed Some p False by auto
    qed
  qed
qed (simp_all add: main_program_def)

theorem program_releases_witness:
  "\<exists>rc final. main_program still_env no_files [''--logging''] []
     (\<lambda>k. \<lparr>before_test = [ActConnect k], while_waiting = (if k = 3 then [ActSignal] else []), answer = EpollReady [3, 5]\<rparr>)
     (\<lambda>_. [ActThread]) = Some (rc, final)"
proof -
  let ?inp = "\<lambda>k. \<lparr>before_test = [ActConnect k], while_waiting = (if k = 3 then [ActSignal] else []), answer = EpollReady [3, 5]\<rparr>"
  have "signalled (?inp 3)" by (simp add: signalled_def)
  then have ends: "\<exists>k. signalled (?inp k) \<or> P k" for P by blast
  show ?thesis
    using program_releases[OF still_clock_sane, of no_files "[''--logging'']" "[]" ?inp "\<lambda>_. [ActThread]",
        unfolded if_P [OF ends]]
    by (auto split: parse_result.splits prod.splits option.splits)
qed

end
