(* ===== verification/Reports.thy ===== *)
theory Reports
  imports System
begin

text \<open>
  From the CAN bus to the clients: what the event loop reads from the socket, stores, formats and broadcasts
  reaches every client that listens (\<^verbatim>\<open>src/main.c\<close>, \<^verbatim>\<open>src/can/can_bus.c\<close>, \<^verbatim>\<open>src/ws/ws_bridge.c\<close> together).
\<close>

section \<open>Texts of one client\<close>

definition texts_to :: "client \<Rightarrow> trace \<Rightarrow> string list" where
  "texts_to c t = map snd (filter (\<lambda>(c', m). c' = c) (ws_tx t))"

text \<open>The fields of a report: what lies between its bars, without the time stamp at the front.\<close>

definition report_fields :: "string \<Rightarrow> string list" where
  "report_fields m = tl (strtok_all CHR ''|'' m)"

lemma one_client:
  assumes "distinct (map ctx_client cs)" and "x \<in> set cs" and "P x"
  shows "filter (\<lambda>y. P y \<and> ctx_client y = ctx_client x) cs = [x]"
  using assms
proof (induction cs)
  case (Cons y cs)
  show ?case
  proof (cases "y = x")
    case True
    then have "filter (\<lambda>y. P y \<and> ctx_client y = ctx_client x) cs = []"
      using Cons.prems(1) by (auto simp: filter_empty_conv image_iff)
    with True Cons.prems(3) show ?thesis by simp
  next
    case False
    then have "x \<in> set cs" "ctx_client y \<noteq> ctx_client x" using Cons.prems(1,2) by force+
    with Cons show ?thesis by simp
  qed
qed simp

lemma report_fields_stamped: "report_fields (show_u (unat (ns :: u64)) @ ''|'' @ msg) = strtok_all CHR ''|'' msg"
proof -
  have "show_u (unat ns) \<noteq> []" by (simp add: show_u_def)
  moreover have "CHR ''|'' \<notin> set (show_u (unat ns))" using show_no_delims(1) by blast
  ultimately show ?thesis using strtok_all_token(1)[of "show_u (unat ns)" "CHR ''|''" msg] by (simp add: report_fields_def)
qed

text \<open>Exactly one text for a listening client.\<close>

lemma broadcast_to_one:
  assumes "\<forall>t c. (ws_connected e t c \<and> ws_handshake_done e t c) = (c \<in> R)"
    and "distinct (map ctx_client (clients (app w)))" and "x \<in> set (clients (app w))"
    and "ctx_client x \<in> R" and "\<not> write_only x"
  shows "texts_to (ctx_client x) (trace (ws_bridge_broadcast_text e msg b w))
    = texts_to (ctx_client x) (trace w) @ [fst (broadcast_payload e msg b w)]"
proof -
  have "filter (\<lambda>y. (ctx_client y \<in> R \<and> \<not> write_only y) \<and> ctx_client y = ctx_client x) (clients (app w)) = [x]"
    by (rule one_client [OF assms(2,3)]) (simp add: assms(4,5))
  then show ?thesis
    by (simp add: texts_to_def broadcast_exact [OF assms(1)] filter_map comp_def conj_commute)
qed

section \<open>One flush\<close>

lemma flush_app:
  assumes "can_tables_ok (app w)"
  shows "app (flush_can_updates e w) =
    (app w)\<lparr>can_dirty := clear_all (take 910 (pending_ids (app w))) (can_dirty (app w))\<rparr>"
  using format_dirty_spec[OF assms, of 8192] by (simp add: flush_can_updates_def Let_def room_def)

lemma report_empty_iff:
  "butlast (concat (map (\<lambda>i. dirty_entry i (can_values (a :: app_context) ! i)) ks)) = [] \<longleftrightarrow> ks = []"
proof (cases ks)
  case (Cons i js)
  then have "butlast (concat (map (\<lambda>i. dirty_entry i (can_values a ! i)) ks)) \<noteq> []"
    using strtok_report[of a ks] by (cases "butlast (concat (map (\<lambda>i. dirty_entry i (can_values a ! i)) ks))") auto
  with Cons show ?thesis by simp
qed simp

text \<open>A flush with something pending sends each listening client one text with the first 910 values; with
  nothing pending it sends nothing.\<close>

lemma flush_delivers:
  assumes "can_tables_ok (app w)"
    and "\<forall>t c. (ws_connected e t c \<and> ws_handshake_done e t c) = (c \<in> R)" and "\<forall>t. alloc_ok e t"
    and "distinct (map ctx_client (clients (app w)))" and "x \<in> set (clients (app w))"
    and "ctx_client x \<in> R" and "\<not> write_only x"
  shows "\<exists>ms. texts_to (ctx_client x) (trace (flush_can_updates e w)) = texts_to (ctx_client x) (trace w) @ ms \<and>
    map report_fields ms = (if pending_ids (app w) = [] then []
      else [map (report_field (app w)) (take 910 (pending_ids (app w)))])"
proof -
  let ?ids = "take 910 (pending_ids (app w))"
  let ?text = "butlast (concat (map (\<lambda>i. dirty_entry i (can_values (app w) ! i)) ?ids))"
  let ?v = "w\<lparr>app := (app w)\<lparr>can_dirty := clear_all ?ids (can_dirty (app w))\<rparr>\<rparr>"
  have f: "can_bus_format_dirty 8192 w = (?text, ?v)"
    using format_dirty_spec[OF assms(1), of 8192] by (simp add: Let_def room_def)
  show ?thesis
  proof (cases "pending_ids (app w) = []")
    case True
    then show ?thesis by (simp add: flush_can_updates_def f texts_to_def)
  next
    case False
    then have "?text \<noteq> []" by (simp add: report_empty_iff)
    then have fl: "flush_can_updates e w = ws_bridge_broadcast_text e ?text True ?v"
      by (simp add: flush_can_updates_def f)
    obtain ns where p: "fst (broadcast_payload e ?text True ?v) = show_u (unat (ns :: u64)) @ ''|'' @ ?text"
      using payload_stamped[of e ?v ?text] assms(3) by blast
    have "texts_to (ctx_client x) (trace (flush_can_updates e w)) = texts_to (ctx_client x) (trace w)
        @ [show_u (unat ns) @ ''|'' @ ?text]"
      using broadcast_to_one[OF assms(2), of ?v x ?text True] assms(4-) fl p by simp
    moreover have "report_fields (show_u (unat ns) @ ''|'' @ ?text) = map (report_field (app w)) ?ids"
      by (simp only: report_fields_stamped strtok_report)
    ultimately show ?thesis using False by (intro exI [of _ "[show_u (unat ns) @ ''|'' @ ?text]"]) simp
  qed
qed

section \<open>Draining the socket\<close>

text \<open>The last standard data frame with identifier \<open>i\<close> among frames received in this order.\<close>

fun last_rx :: "u32 \<Rightarrow> can_frame list \<Rightarrow> can_frame option" where
  "last_rx i [] = None"
| "last_rx i (f # fs) =
     (case last_rx i fs of
        Some g \<Rightarrow> Some g
      | None \<Rightarrow> if can_id f AND CAN_FLAGS = 0 \<and> can_id f AND 0x7FF = i then Some f else None)"

lemma drain_values:
  assumes "rxq w = map RdFrame fs" and "0 \<le> can_fd (app w)" and "can_tables_ok (app w)" and "i \<le> 0x7FF"
  shows "can_values (app (drain_can e w)) ! unat i =
      (case last_rx i fs of None \<Rightarrow> can_values (app w) ! unat i | Some f \<Rightarrow> uint (frame_value f))"
    and "can_dirty (app (drain_can e w)) ! unat i \<longleftrightarrow> can_dirty (app w) ! unat i \<or> last_rx i fs \<noteq> None"
proof -
  have i: "unat i < APP_CAN_ID_COUNT" using assms(4) by (simp add: word_le_nat_alt APP_CAN_ID_COUNT_def)
  have "can_values (app (drain_can e w)) ! unat i =
      (case last_rx i fs of None \<Rightarrow> can_values (app w) ! unat i | Some f \<Rightarrow> uint (frame_value f)) \<and>
    (can_dirty (app (drain_can e w)) ! unat i \<longleftrightarrow> can_dirty (app w) ! unat i \<or> last_rx i fs \<noteq> None)"
    using assms(1-3)
  proof (induction fs arbitrary: w)
    case Nil
    then show ?case by (subst (1 2) drain_can.simps) (simp add: can_bus_read_frame_def)
  next
    case (Cons f fs)
    let ?w = "can_bus_store_rx e f (w\<lparr>rxq := map RdFrame fs\<rparr>)"
    have step: "drain_can e w = drain_can e ?w"
      using Cons.prems(1,2) by (subst drain_can.simps) (simp add: can_bus_read_frame_def)
    have len: "length (can_values (app w)) = APP_CAN_ID_COUNT" "length (can_dirty (app w)) = APP_CAN_ID_COUNT"
      using Cons.prems(3) by (simp_all add: can_tables_ok_def)
    have "rxq ?w = map RdFrame fs" "0 \<le> can_fd (app ?w)" "can_tables_ok (app ?w)"
      using Cons.prems(2,3) by (simp_all add: store_rx_app can_tables_ok_def)
    note IH = Cons.IH[OF this]
    have "unat (can_id f AND 0x7FF) = unat i \<longleftrightarrow> can_id f AND 0x7FF = i" by (simp add: word_unat_eq_iff)
    then show ?case
      unfolding step using IH len i
      by (auto simp: store_rx_app nth_list_update split: option.splits)
  qed
  then show "can_values (app (drain_can e w)) ! unat i =
      (case last_rx i fs of None \<Rightarrow> can_values (app w) ! unat i | Some f \<Rightarrow> uint (frame_value f))"
    and "can_dirty (app (drain_can e w)) ! unat i \<longleftrightarrow> can_dirty (app w) ! unat i \<or> last_rx i fs \<noteq> None"
    by blast+
qed

lemma last_rx_id: "last_rx i fs = Some f \<Longrightarrow> i \<le> 0x7FF"
  by (induction fs) (auto split: option.splits if_splits intro: word_and_le1)

text \<open>A tick ends with a flush of what the tables held before it.\<close>

lemma on_timer_flush:
  assumes "on_timer e (n, w) = Some (n', w')"
  shows "\<exists>v. w' = flush_can_updates e v \<and> app v = app (wiggle_process e w) \<and> ws_tx (trace v) = ws_tx (trace w)"
  using assms
  by (auto simp: on_timer_def Let_def case_prod_beta split: if_splits option.splits
      intro: exI [of _ "snd (heartbeat_send e (can_fd (app (wiggle_process e w)))
        (snd (heartbeat_now_ms e (wiggle_process e w))))"] exI [of _ "snd (heartbeat_now_ms e (wiggle_process e w))"])

section \<open>Properties\<close>

text \<open>C21.  Nothing stays unreported: three flushes send every listening client, after the time stamps, exactly
  the fields of all pending values in ascending order of their identifiers, each once, even when all 2048
  have changed, and nothing is pending afterwards; provided the client stays ready and memory is available.\<close>

theorem every_change_reported:
  assumes "can_tables_ok (app w)"
    and "\<forall>t c. (ws_connected e t c \<and> ws_handshake_done e t c) = (c \<in> R)" and "\<forall>t. alloc_ok e t"
    and "distinct (map ctx_client (clients (app w)))" and "x \<in> set (clients (app w))"
    and "ctx_client x \<in> R" and "\<not> write_only x"
    and "w' = flush_can_updates e (flush_can_updates e (flush_can_updates e w))"
  shows "\<exists>ms. texts_to (ctx_client x) (trace w') = texts_to (ctx_client x) (trace w) @ ms \<and>
    concat (map report_fields ms) = map (report_field (app w)) (pending_ids (app w)) \<and>
    pending_ids (app w') = []"
proof -
  let ?f = "flush_can_updates e" let ?p = "pending_ids (app w)"
  have one: "can_tables_ok (app (?f v)) \<and> clients (app (?f v)) = clients (app v) \<and>
      can_values (app (?f v)) = can_values (app v) \<and> pending_ids (app (?f v)) = drop 910 (pending_ids (app v)) \<and>
      (\<exists>ms. texts_to (ctx_client x) (trace (?f v)) = texts_to (ctx_client x) (trace v) @ ms \<and>
        concat (map report_fields ms) = map (report_field (app v)) (take 910 (pending_ids (app v))))"
    if "can_tables_ok (app v)" "clients (app v) = clients (app w)" for v
    using flush_delivers[OF that(1) assms(2,3), of x] that assms(4-7) flush_app[OF that(1), of e]
      pending_after_clear[OF that(1), of 910]
    by (auto simp: can_tables_ok_def split: if_splits)
  note 1 = one[OF assms(1) refl] and 2 = one[of "?f w"] and 3 = one[of "?f (?f w)"]
  have same: "report_field (app v) = report_field (app w)" if "can_values (app v) = can_values (app w)" for v
    using that by (simp add: report_field_def fun_eq_iff)
  have "length ?p \<le> length [0..<APP_CAN_ID_COUNT]" unfolding pending_ids_def by (rule length_filter_le)
  then have short: "length ?p \<le> 2048" by (simp add: APP_CAN_ID_COUNT_def)
  have parts: "?p = take 910 ?p @ take 910 (drop 910 ?p) @ take 910 (drop 1820 ?p)"
    using short append_take_drop_id[of 910 ?p] append_take_drop_id[of 910 "drop 910 ?p"] by simp
  obtain m1 m2 m3 where m:
    "texts_to (ctx_client x) (trace w') = texts_to (ctx_client x) (trace w) @ m1 @ m2 @ m3"
    "concat (map report_fields m1) = map (report_field (app w)) (take 910 ?p)"
    "concat (map report_fields m2) = map (report_field (app w)) (take 910 (drop 910 ?p))"
    "concat (map report_fields m3) = map (report_field (app w)) (take 910 (drop 1820 ?p))"
    "pending_ids (app w') = drop 2730 ?p"
    using 1 2 3 same[of "?f w"] same[of "?f (?f w)"] assms(8) by auto
  have "map (report_field (app w)) ?p = concat (map report_fields (m1 @ m2 @ m3))"
    using m(2-4) by (subst parts) simp
  then show ?thesis using m(1,5) short by (intro exI [of _ "m1 @ m2 @ m3"]) simp
qed

definition listening_world :: world where
  "listening_world = sample_world\<lparr>rxq := [RdFrame (command_frame 5 0x1234 0)],
     app := (app sample_world)\<lparr>clients := [\<lparr>ctx_addr = 2, ctx_client = 8, write_only = False\<rparr>]\<rparr>\<rparr>"

theorem every_change_reported_witness:
  "pending_ids (app (flush_can_updates sample_env (flush_can_updates sample_env (flush_can_updates sample_env
     (can_bus_store_rx sample_env (command_frame 5 1 0) listening_world))))) = []"
proof -
  let ?w = "can_bus_store_rx sample_env (command_frame 5 1 0) listening_world"
  have tab: "can_tables_ok (app ?w)" and cl: "clients (app ?w) = [\<lparr>ctx_addr = 2, ctx_client = 8, write_only = False\<rparr>]"
    using sample_tables_ok by (simp_all add: store_rx_app listening_world_def can_tables_ok_def)
  have env: "\<forall>t c. (ws_connected sample_env t c \<and> ws_handshake_done sample_env t c) = (c \<in> UNIV)"
    "\<forall>t. alloc_ok sample_env t" by (simp_all add: sample_env_def)
  from every_change_reported[OF tab env, of "\<lparr>ctx_addr = 2, ctx_client = 8, write_only = False\<rparr>"] cl show ?thesis
    by auto
qed

text \<open>C22.  A value received from the bus reaches the clients: in a turn of the event loop that finds frames on
  the socket and then the timer expired, every listening client gets one report, in which the field of
  each received identifier spells the identifier and the value of the last frame received for it, and from
  which the program's own parser of raw commands reads both back; provided at most 910 values are pending, the
  client stays ready and memory is available.\<close>

theorem received_value_reported:
  assumes "clock_sane e" and "control_inv w" and "0 \<le> can_fd (app w)" and "timer_fd (app w) \<noteq> can_fd (app w)"
    and "\<forall>t c. (ws_connected e t c \<and> ws_handshake_done e t c) = (c \<in> R)" and "\<forall>t. alloc_ok e t"
    and "distinct (map ctx_client (clients (app w)))" and "x \<in> set (clients (app w))"
    and "ctx_client x \<in> R" and "\<not> write_only x"
    and "rxq w = map RdFrame fs" and "length (pending_ids (app (drain_can e w))) \<le> 910"
    and "last_rx i fs = Some f" and "field = show_03x i @ ''#'' @ show_04x (frame_value f)"
  shows "\<exists>s' m. loop_turn e [can_fd (app w), timer_fd (app w)] (n, w) = Some s' \<and>
    texts_to (ctx_client x) (trace (snd s')) = texts_to (ctx_client x) (trace w) @ [m] \<and>
    field \<in> set (report_fields m) \<and> parse_raw_can_fields field = Some (i, frame_value f, 0, False)"
proof -
  let ?d = "drain_can e w"
  note d = drain_can_tables[of w e] note keep = same_but_tablesD[OF conjunct1 [OF d]]
  have inv: "control_inv ?d" by (rule inv_drain [OF assms(2)])
  obtain n' w' where t: "on_timer e (n, ?d) = Some (n', w')" using on_timer_returns[OF assms(1), of "(n, ?d)"] by auto
  then have turn: "loop_turn e [can_fd (app w), timer_fd (app w)] (n, w) = Some (n', w')" using assms(4) keep by simp
  obtain v where v: "w' = flush_can_updates e v" "app v = app (wiggle_process e ?d)" "ws_tx (trace v) = ws_tx (trace ?d)"
    using on_timer_flush[OF t] by blast
  obtain wg where p: "app v = (app ?d)\<lparr>wiggles := wg\<rparr>" using v(2) wiggle_process_ok(2)[OF control_invD(1) [OF inv]] by metis
  have tab: "can_tables_ok (app v)" using control_invD(4)[OF inv] p by (simp add: can_tables_ok_def)
  have cl: "clients (app v) = clients (app w)" using p keep(7) by simp
  have pend: "pending_ids (app v) = pending_ids (app ?d)" by (simp add: p pending_ids_def)
  have old: "texts_to (ctx_client x) (trace v) = texts_to (ctx_client x) (trace w)" using v(3) d by (simp add: texts_to_def)
  have le: "i \<le> 0x7FF" by (rule last_rx_id [OF assms(13)])
  note val = drain_values[OF assms(11,3) control_invD(4) [OF assms(2)] le, of e]
  have "unat i \<in> set (pending_ids (app v))"
    using val le assms(13) unfolding pend
    by (simp add: pending_ids_def reportable_def word_le_nat_alt APP_CAN_ID_COUNT_def)
  moreover have "report_field (app v) (unat i) = field"
    using val(1) assms(13,14) by (simp add: report_field_def p)
  ultimately have fld: "field \<in> set (map (report_field (app v)) (take 910 (pending_ids (app v))))"
    using assms(12) pend by (simp add: rev_image_eqI)
  from flush_delivers[OF tab assms(5,6), of x] obtain ms where
    ms: "texts_to (ctx_client x) (trace w') = texts_to (ctx_client x) (trace w) @ ms"
      "map report_fields ms = [map (report_field (app v)) (take 910 (pending_ids (app v)))]"
    using \<open>unat i \<in> set (pending_ids (app v))\<close> assms(7-10) cl old v(1) by (auto split: if_splits)
  then obtain m where "ms = [m]" "field \<in> set (report_fields m)" using fld by (cases ms) auto
  moreover have "parse_raw_can_fields field = Some (i, frame_value f, 0, False)"
    using scan_int_show(2)[of "[]" "frame_value f"] by (simp add: parse_raw_can_fields_def assms(14))
  ultimately show ?thesis using turn ms(1) by (intro exI [of _ "(n', w')"] exI [of _ m]) simp
qed

theorem received_value_reported_witness:
  "\<exists>s' m. loop_turn still_env [3, 5] (6500, listening_world) = Some s' \<and>
     texts_to 8 (trace (snd s')) = [m] \<and> ''005#1234'' \<in> set (report_fields m)"
proof -
  let ?f = "command_frame 5 0x1234 0"
  have inv: "control_inv listening_world"
    using sample_inv(1) by (simp add: listening_world_def control_inv_def hotfire_still_def can_tables_ok_def
        sequence_ok_def frames_ok_def)
  have env: "\<forall>t c. (ws_connected still_env t c \<and> ws_handshake_done still_env t c) = (c \<in> UNIV)"
    "\<forall>t. alloc_ok still_env t" by (simp_all add: still_env_def sample_env_def)
  have w: "can_fd (app listening_world) = 3" "timer_fd (app listening_world) = 5" "trace listening_world = []"
    "clients (app listening_world) = [\<lparr>ctx_addr = 2, ctx_client = 8, write_only = False\<rparr>]"
    "rxq listening_world = map RdFrame [?f]"
    by (simp_all add: listening_world_def sample_world_def)
  have rx: "last_rx 5 [?f] = Some ?f" by (simp add: CAN_FLAGS_def)
  have fld: "''005#1234'' = show_03x 5 @ ''#'' @ show_04x (frame_value ?f)" by (simp add: clib_simps) (simp add: numeral_2_eq_2)
  have drained: "drain_can still_env listening_world = (can_bus_store_rx still_env ?f (listening_world\<lparr>rxq := []\<rparr>))\<lparr>errno := EAGAIN\<rparr>"
    by (subst drain_can.simps, simp add: can_bus_read_frame_def w, subst drain_can.simps)
      (simp add: can_bus_read_frame_def store_rx_app w)
  have "set (pending_ids (app (drain_can still_env listening_world))) \<subseteq> {5}"
    unfolding drained by (auto simp: store_rx_app CAN_FLAGS_def pending_ids_def reportable_def listening_world_def sample_world_def
        app_context_init_def nth_update split: if_splits)
  moreover have "distinct (pending_ids (app (drain_can still_env listening_world)))" by (simp add: pending_ids_def)
  ultimately have short: "length (pending_ids (app (drain_can still_env listening_world))) \<le> 910"
    by (metis card_mono distinct_card finite.emptyI finite_insert le_trans card_1_singleton_iff is_singletonI one_le_numeral is_singleton_altdef)
  from received_value_reported[OF still_clock_sane inv _ _ env _ _ _ _ w(5) short rx fld,
      of "\<lparr>ctx_addr = 2, ctx_client = 8, write_only = False\<rparr>" 6500]
  show ?thesis by (auto simp: w texts_to_def)
qed

end
