(* ===== verification/LoggerInv.thy ===== *)
theory LoggerInv
  imports Sample
begin

text \<open>
  What the logger guarantees: the file stays within its capacity in cyclic mode, maintenance deletes
  the oldest log files and never the current one or a file that is not a log, and a line written in
  normal mode is appended whole.
\<close>

section \<open>Time stamps\<close>

text \<open>\<^verbatim>\<open>timespec_cmp\<close> is the lexicographic order.\<close>

instantiation timespec :: linorder
begin

definition less_eq_timespec :: "timespec \<Rightarrow> timespec \<Rightarrow> bool" where
  "less_eq_timespec a b \<longleftrightarrow> tv_sec a < tv_sec b \<or> tv_sec a = tv_sec b \<and> tv_nsec a \<le> tv_nsec b"

definition less_timespec :: "timespec \<Rightarrow> timespec \<Rightarrow> bool" where
  "less_timespec a b \<longleftrightarrow> tv_sec a < tv_sec b \<or> tv_sec a = tv_sec b \<and> tv_nsec a < tv_nsec b"

instance
proof
  show "x = y" if "x \<le> y" "y \<le> x" for x y :: timespec
    using that by (cases x; cases y) (auto simp: less_eq_timespec_def)
qed (auto simp: less_eq_timespec_def less_timespec_def)

end

lemma timespec_cmp_order:
  "timespec_cmp a b < 0 \<longleftrightarrow> a < b" "timespec_cmp a b = 0 \<longleftrightarrow> a = b" "timespec_cmp a b > 0 \<longleftrightarrow> b < a"
  by (cases a; cases b; auto simp: timespec_cmp_def less_timespec_def)+

section \<open>The oldest log file\<close>

lemma oldest_loop_le:
  "oldest_loop l ds best = Some (t, p) \<Longrightarrow> best = Some (t', p') \<Longrightarrow> t \<le> t'"
proof (induction ds arbitrary: best t' p')
  case Nil
  then show ?case by simp
next
  case (Cons d ds)
  show ?case
  proof (cases "deletable l d")
    case None
    with Cons show ?thesis by simp
  next
    case (Some m)
    show ?thesis
    proof (cases "m < t'")
      case True
      with Cons Some have "t \<le> m" by (simp add: timespec_cmp_order)
      with True show ?thesis by simp
    next
      case False
      with Cons Some show ?thesis by (simp add: timespec_cmp_order)
    qed
  qed
qed

lemma oldest_loop_min:
  "oldest_loop l ds best = Some (t, p) \<Longrightarrow> d \<in> set ds \<Longrightarrow> deletable l d = Some m \<Longrightarrow> t \<le> m"
proof (induction ds arbitrary: best)
  case Nil
  then show ?case by simp
next
  case (Cons x ds)
  show ?case
  proof (cases "d = x")
    case False
    with Cons show ?thesis by (simp split: option.splits if_splits)
  next
    case True
    let ?best = "case best of None \<Rightarrow> True | Some (oldest, _) \<Rightarrow> timespec_cmp m oldest < 0"
    from True Cons.prems(1,3) have o: "oldest_loop l ds
        (if ?best then Some (m, log_full_path (log_dir l) (d_name x)) else best) = Some (t, p)" by simp
    show ?thesis
    proof (cases ?best)
      case True
      with o oldest_loop_le[of l ds _ t p m] show ?thesis by simp
    next
      case False
      then obtain t' p' where b: "best = Some (t', p')" "\<not> m < t'"
        by (auto simp: timespec_cmp_order split: option.splits)
      with o False oldest_loop_le[of l ds best t p t' p'] show ?thesis by simp
    qed
  qed
qed

lemma oldest_loop_None: "oldest_loop l ds None = None \<Longrightarrow> d \<in> set ds \<Longrightarrow> deletable l d = None"
proof (induction ds)
  case Nil
  then show ?case by simp
next
  case (Cons x ds)
  have some: "oldest_loop l ds (Some b) \<noteq> None" for b
    by (induction ds arbitrary: b) (auto split: option.splits if_splits)
  show ?case using Cons some by (cases "deletable l x") auto
qed

lemma find_oldest_spec:
  assumes "find_oldest_deletable_log e w = (Some r, w1)"
  shows "r = map_option snd (oldest_loop (logger w) (dir w) None)" and "logger w1 = logger w" and "dir w1 = dir w"
  using assms by (auto simp: find_oldest_deletable_log_def case_prod_beta split: if_splits)

lemma deletable_not_current:
  "deletable l d = Some m \<Longrightarrow> is_logger_file_name (d_name d) \<and> log_full_path (log_dir l) (d_name d) \<noteq> current_path l"
  by (auto simp: deletable_def Let_def split: if_splits)

lemma log_full_path_inj [simp]: "log_full_path d a = log_full_path d b \<longleftrightarrow> a = b"
  by (simp add: log_full_path_def)

section \<open>Maintenance spares the current file\<close>

definition protected :: "logger \<Rightarrow> dirent \<Rightarrow> bool" where
  "protected l d \<longleftrightarrow> \<not> is_logger_file_name (d_name d) \<or> log_full_path (log_dir l) (d_name d) = current_path l"

lemma unlink_keeps [simp]:
  "logger (snd (unlink e p w)) = logger w"
  by (simp add: unlink_def case_prod_beta)

lemma unlink_protected:
  assumes "oldest_loop (logger w) (dir w) None = Some (t, p)"
  shows "filter (protected (logger w)) (dir (snd (unlink e p w))) = filter (protected (logger w)) (dir w)"
proof -
  from oldest_loop_cases[OF assms] obtain d where
    d: "deletable (logger w) d = Some t" "p = log_full_path (log_dir (logger w)) (d_name d)" by auto
  have "protected (logger w) x \<Longrightarrow> log_full_path (log_dir (logger w)) (d_name x) \<noteq> p" for x
    using deletable_not_current[OF d(1)] d(2) by (auto simp: protected_def)
  then show ?thesis by (auto simp: unlink_def case_prod_beta intro: filter_cong)
qed

lemma prepare_cyclic_keeps [simp]:
  "dir (snd (prepare_cyclic_mode_locked e w)) = dir w"
  by (simp add: prepare_cyclic_mode_locked_def case_prod_beta Let_def set_logger_def split: option.splits)

lemma maintenance_protected:
  "filter (protected (logger w)) (dir (maintenance_loop e w)) = filter (protected (logger w)) (dir w)"
proof (induction e w rule: maintenance_loop.induct)
  case (1 e w)
  obtain r w1 where f: "find_oldest_deletable_log e w = (r, w1)" by fastforce
  show ?case
  proof (cases r)
    case None
    with f have "dir w1 = dir w"
      by (auto simp: find_oldest_deletable_log_def case_prod_beta split: if_splits)
    with None f show ?thesis by (subst maintenance_loop.simps) simp
  next
    case (Some q)
    note spec = find_oldest_spec[OF f [unfolded Some]]
    show ?thesis
    proof (cases q)
      case None
      with Some f spec show ?thesis by (subst maintenance_loop.simps) (simp add: set_logger_def)
    next
      case q: (Some p)
      then obtain t where "oldest_loop (logger w1) (dir w1) None = Some (t, p)" using spec by auto
      note keep = unlink_protected[OF this, of e]
      obtain ok w2 where u: "unlink e p w1 = (ok, w2)" by fastforce
      have w2: "logger w2 = logger w" using u spec(2) unlink_keeps[of e p w1] by simp
      have kept: "filter (protected (logger w)) (dir w2) = filter (protected (logger w)) (dir w)"
        using keep u spec by simp
      have rec: "filter (protected (logger w)) (dir (maintenance_loop e w2)) = filter (protected (logger w)) (dir w2)"
        if "ok" "get_free_percent e w2 = Some pct" "\<not> LOGGER_MIN_FREE_PERCENT \<le> pct" for pct
        using "1.IH"[OF f [symmetric] Some q u [symmetric]] that w2 by simp
      show ?thesis
        using f Some q u kept rec
        by (subst maintenance_loop.simps) (auto simp: set_logger_def split: option.splits bool.splits)
    qed
  qed
qed

section \<open>Cyclic mode\<close>

definition file_len :: "logger \<Rightarrow> nat" where
  "file_len l = (case fp l of None \<Rightarrow> 0 | Some st \<Rightarrow> length (file_bytes st))"

text \<open>Ready for a cyclic write: the offset lies inside the capacity, and so does the file.\<close>

definition cyclic_ok :: "logger \<Rightarrow> bool" where
  "cyclic_ok l \<longleftrightarrow> fp l \<noteq> None \<and> 0 \<le> cyclic_write_offset l \<and>
     cyclic_write_offset l < cyclic_capacity_bytes l \<and> int (file_len l) \<le> cyclic_capacity_bytes l"

lemma length_overwrite: "length (overwrite bs p s) = max (length bs) (p + length s)"
  by (simp add: overwrite_def)

lemma prepare_cyclic_ok:
  assumes "prepare_cyclic_mode_locked e w = (True, w')"
  shows "cyclic_ok (logger w')"
  using assms
  by (auto simp: prepare_cyclic_mode_locked_def case_prod_beta Let_def set_logger_def cyclic_ok_def file_len_def
      LOGGER_MIN_CYCLIC_CAPACITY_BYTES_def split: option.splits if_splits)

lemma fit_capacity_ok:
  assumes "cyclic_ok l" and "0 < n"
  shows "cyclic_ok (fit_capacity n l)" and "cyclic_write_offset (fit_capacity n l) + n \<le> cyclic_capacity_bytes (fit_capacity n l)"
    and "cyclic_capacity_bytes (fit_capacity n l) = max (cyclic_capacity_bytes l) n"
    and "fp (fit_capacity n l) = fp l"
  using assms by (auto simp: fit_capacity_def Let_def cyclic_ok_def file_len_def)

lemma advance_offset_ok:
  assumes "cyclic_ok l" and "0 \<le> n"
  shows "cyclic_ok (advance_offset n l)" and "cyclic_capacity_bytes (advance_offset n l) = cyclic_capacity_bytes l"
  using assms by (auto simp: advance_offset_def Let_def cyclic_ok_def file_len_def)

text \<open>Writing at most \<open>k\<close> bytes at the offset keeps the file inside the capacity.\<close>

lemma fwrite_cyclic_ok:
  assumes "cyclic_ok (logger w)" and "fp (logger w) = Some st" and "file_pos st = nat (cyclic_write_offset (logger w))"
    and "cyclic_write_offset (logger w) + int (length s) \<le> cyclic_capacity_bytes (logger w)"
  shows "cyclic_ok (logger (snd (fwrite e s w)))"
    and "cyclic_capacity_bytes (logger (snd (fwrite e s w))) = cyclic_capacity_bytes (logger w)"
  using assms by (auto simp: fwrite_def Let_def set_logger_def cyclic_ok_def file_len_def length_overwrite)

lemma write_cyclic_ok:
  assumes "cyclic_ok (logger w)" and "data \<noteq> []"
  shows "cyclic_ok (logger (snd (write_cyclic_bytes_locked e data w)))"
    and "cyclic_capacity_bytes (logger (snd (write_cyclic_bytes_locked e data w)))
      = max (cyclic_capacity_bytes (logger w)) (int (length data))"
proof -
  let ?n = "int (length data)"
  define w2 where "w2 = set_logger (fit_capacity ?n) w"
  have n: "0 < ?n" using assms(2) by simp
  note f = fit_capacity_ok[OF assms(1) n]
  have l2: "logger w2 = fit_capacity ?n (logger w)" by (simp add: w2_def set_logger_def)
  obtain ok w3 where sk: "fseek_set e (nat (cyclic_write_offset (logger w2))) w2 = (ok, w3)" by fastforce
  obtain st where st: "fp (logger w) = Some st" using assms(1) by (auto simp: cyclic_ok_def)
  have w3: "logger w3 = (logger w2)\<lparr>fp := fp (logger w3)\<rparr>" "file_len (logger w3) = file_len (logger w2)"
    "fp (logger w3) \<noteq> None"
    using sk st l2 f(4) by (auto simp: fseek_set_def case_prod_beta set_logger_def file_len_def split: if_splits)
  have same: "cyclic_write_offset (logger w3) = cyclic_write_offset (logger w2)"
    "cyclic_capacity_bytes (logger w3) = cyclic_capacity_bytes (logger w2)" by (subst w3(1), simp)+
  have c3: "cyclic_ok (logger w3)" using f(1) w3(2,3) same l2 by (simp add: cyclic_ok_def)
  have pos: "\<exists>st'. fp (logger w3) = Some st' \<and> file_pos st' = nat (cyclic_write_offset (logger w3))" if ok
    using sk st l2 f(4) same that by (auto simp: fseek_set_def case_prod_beta set_logger_def split: if_splits)
  have wr: "cyclic_ok (logger (snd (fwrite e data w3)))"
    "cyclic_capacity_bytes (logger (snd (fwrite e data w3))) = cyclic_capacity_bytes (logger w3)" if ok
    using pos[OF that] fwrite_cyclic_ok[OF c3] f(2) same l2 by auto
  have adv: "cyclic_ok (logger (set_logger (advance_offset ?n) (snd (fwrite e data w3))))"
    "cyclic_capacity_bytes (logger (set_logger (advance_offset ?n) (snd (fwrite e data w3)))) = cyclic_capacity_bytes (logger w3)"
    if ok using wr[OF that] advance_offset_ok n by (simp_all add: set_logger_def)
  have prep: "\<not> cyclic_capacity_bytes (logger w) \<le> 0" using assms(1) by (simp add: cyclic_ok_def)
  have unf: "write_cyclic_bytes_locked e data w =
      (if \<not> ok then (False, w3)
       else case fwrite e data w3 of (m, w4) \<Rightarrow>
         if m \<noteq> length data then (False, w4)
         else case io_call e OpFlush (set_logger (advance_offset ?n) w4) of (flushed, w5) \<Rightarrow> (flushed, w5))"
    using assms(2) st prep sk by (simp add: write_cyclic_bytes_locked_def w2_def Let_def)
  show "cyclic_ok (logger (snd (write_cyclic_bytes_locked e data w)))"
    unfolding unf using c3 wr adv by (simp add: case_prod_beta)
  show "cyclic_capacity_bytes (logger (snd (write_cyclic_bytes_locked e data w))) = max (cyclic_capacity_bytes (logger w)) ?n"
    unfolding unf using same f(3) l2 wr adv by (simp add: case_prod_beta)
qed

text \<open>A whole line in cyclic mode: the file is bounded by the capacity, or by the longest of the
  three parts of the line when that is longer.\<close>

definition line_parts :: "u64 \<Rightarrow> string \<Rightarrow> string \<Rightarrow> nat" where
  "line_parts ns kind payload = max (length (log_header ns kind)) (max (length payload) 1)"

lemma log_header_not_Nil [simp]: "log_header ns kind \<noteq> []"
  by (simp add: log_header_def)

lemma write_cyclic_line_ok:
  assumes "cyclic_ok (logger w)"
  shows "cyclic_ok (logger (write_cyclic_line e kind payload w))"
    and "cyclic_capacity_bytes (logger (write_cyclic_line e kind payload w))
      = max (cyclic_capacity_bytes (logger w)) (int (line_parts (fst (realtime_ns e w)) kind payload))"
proof -
  obtain ns w1 where r: "realtime_ns e w = (ns, w1)" by fastforce
  have l1: "logger w1 = logger w" using clock_keeps(4)[of e w] r by simp
  define w2 where "w2 = snd (write_cyclic_bytes_locked e (log_header ns kind) w1)"
  define w3 where "w3 = (if length payload > 0 then snd (write_cyclic_bytes_locked e payload w2) else w2)"
  have c1: "cyclic_ok (logger w1)" using assms l1 by simp
  note h = write_cyclic_ok[OF c1 log_header_not_Nil, of e ns kind, folded w2_def]
  have p: "cyclic_ok (logger w3)"
    "cyclic_capacity_bytes (logger w3) = max (cyclic_capacity_bytes (logger w2)) (int (length payload))"
    using h write_cyclic_ok[OF h(1), of payload e] by (auto simp: w3_def cyclic_ok_def)
  note n = write_cyclic_ok[OF p(1), of "''\<newline>''" e]
  have unf: "write_cyclic_line e kind payload w = snd (write_cyclic_bytes_locked e ''\<newline>'' w3)"
    by (simp add: write_cyclic_line_def r Let_def w2_def w3_def)
  show "cyclic_ok (logger (write_cyclic_line e kind payload w))" unfolding unf using n(1) by simp
  show "cyclic_capacity_bytes (logger (write_cyclic_line e kind payload w))
      = max (cyclic_capacity_bytes (logger w)) (int (line_parts (fst (realtime_ns e w)) kind payload))"
    unfolding unf using n(2) p(2) h(2) l1 r by (simp add: line_parts_def of_nat_max max.assoc)
qed

section \<open>Lines in normal mode\<close>

text \<open>The writes get out every byte and the seeks succeed.\<close>

definition file_io_works :: "env \<Rightarrow> bool" where
  "file_io_works e \<longleftrightarrow> (\<forall>t op. io_ok e t op) \<and> (\<forall>t n. io_count e t n = n)"

lemma overwrite_end [simp]: "overwrite bs (length bs) s = bs @ s"
  by (simp add: overwrite_def)

lemma fwrite_append:
  assumes "file_io_works e" and "fp (logger w) = Some st" and "file_pos st = length (file_bytes st)"
  shows "fp (logger (snd (fwrite e s w)))
      = Some (st\<lparr>file_bytes := file_bytes st @ s, file_pos := length (file_bytes st @ s)\<rparr>)"
  using assms by (simp add: fwrite_def Let_def set_logger_def file_io_works_def)

lemma write_normal_line_appends:
  assumes "file_io_works e" and "fp (logger w) = Some st"
  shows "\<exists>st'. fp (logger (snd (write_normal_line_locked e kind payload w))) = Some st' \<and>
    file_bytes st' = file_bytes st
      @ log_header (fst (realtime_ns e (snd (fseek_end e w)))) kind @ payload @ ''\<newline>''"
proof -
  let ?st = "st\<lparr>file_pos := length (file_bytes st)\<rparr>"
  have ok: "fst (fseek_end e w)" and s: "fp (logger (snd (fseek_end e w))) = Some ?st"
    using assms by (simp_all add: fseek_end_def io_call_def Let_def set_logger_def file_io_works_def)
  obtain ns w2 where r: "realtime_ns e (snd (fseek_end e w)) = (ns, w2)" by fastforce
  have w2: "fp (logger w2) = Some ?st" using clock_keeps(4)[of e "snd (fseek_end e w)"] r s by simp
  note h = fwrite_append[OF assms(1) w2, of "log_header ns kind"]
  note p = fwrite_append[OF assms(1) h[simplified], of payload]
  show ?thesis
    using ok r fwrite_append[OF assms(1) h[simplified], of "''\<newline>''"] fwrite_append[OF assms(1) p[simplified], of "''\<newline>''"]
    by (cases "payload = []") (simp_all add: write_normal_line_locked_def case_prod_beta Let_def)
qed

text \<open>The header buffer of the cyclic writer has 128 bytes; the kinds in use have at most eight
  characters.\<close>

lemma log_header_fits: "length kind \<le> 100 \<Longrightarrow> length (log_header ns kind) < 128"
proof -
  have "unat ns < 10 ^ 20" using unsigned_less[of ns, where 'a = nat] by simp
  then have "length (show_u (unat ns)) \<le> 20" unfolding show_u_def by (intro length_digits_in) simp_all
  then show "length kind \<le> 100 \<Longrightarrow> length (log_header ns kind) < 128" by (simp add: log_header_def)
qed

section \<open>Properties\<close>

definition write_lines :: "env \<Rightarrow> (string \<times> string) list \<Rightarrow> world \<Rightarrow> world" where
  "write_lines e ls w = fold (\<lambda>(kind, payload) w. write_cyclic_line e kind payload w) ls w"

lemma line_parts_le:
  "int (length kind) + 22 \<le> cap \<Longrightarrow> int (length payload) \<le> cap \<Longrightarrow> int (line_parts ns kind payload) \<le> cap"
proof -
  have "unat ns < 10 ^ 20" using unsigned_less[of ns, where 'a = nat] by simp
  then have "length (show_u (unat ns)) \<le> 20" unfolding show_u_def by (intro length_digits_in) simp_all
  then show "int (length kind) + 22 \<le> cap \<Longrightarrow> int (length payload) \<le> cap \<Longrightarrow> int (line_parts ns kind payload) \<le> cap"
    by (simp add: line_parts_def log_header_def)
qed

text \<open>C37.  The file is bounded in cyclic mode: as long as no single line is longer than the capacity,
  however many lines are written, with whatever failures of the file system, the capacity stays the same,
  the file never grows beyond it and the write offset stays inside it.\<close>

theorem cyclic_file_bounded:
  assumes "cyclic_ok (logger w)" and "cap = cyclic_capacity_bytes (logger w)"
    and "\<forall>(kind, payload) \<in> set ls. int (length kind) + 22 \<le> cap \<and> int (length payload) \<le> cap"
  shows "cyclic_capacity_bytes (logger (write_lines e ls w)) = cap \<and>
    int (file_len (logger (write_lines e ls w))) \<le> cap \<and>
    0 \<le> cyclic_write_offset (logger (write_lines e ls w)) \<and> cyclic_write_offset (logger (write_lines e ls w)) < cap"
proof -
  have "cyclic_ok (logger (write_lines e ls w)) \<and> cyclic_capacity_bytes (logger (write_lines e ls w)) = cap"
    using assms
  proof (induction ls arbitrary: w)
    case Nil
    then show ?case by (simp add: write_lines_def)
  next
    case (Cons l ls)
    obtain kind payload where l: "l = (kind, payload)" by fastforce
    let ?w = "write_cyclic_line e kind payload w"
    have "int (line_parts (fst (realtime_ns e w)) kind payload) \<le> cap"
      using Cons.prems(3) l by (intro line_parts_le) auto
    then have "cyclic_ok (logger ?w)" "cap = cyclic_capacity_bytes (logger ?w)"
      using write_cyclic_line_ok[OF Cons.prems(1), of e kind payload] Cons.prems(2) by simp_all
    from Cons.IH[OF this] Cons.prems(3) show ?case by (simp add: l write_lines_def)
  qed
  then show ?thesis by (auto simp: cyclic_ok_def)
qed

definition cyclic_world :: world where
  "cyclic_world = sample_world\<lparr>logger := zero_logger\<lparr>enabled := True,
     fp := Some \<lparr>file_bytes = [], file_pos = 0\<rparr>, log_dir := ''/log'', current_path := ''/log/simple_ws_1'',
     cyclic_mode := True, cyclic_capacity_bytes := 4096\<rparr>\<rparr>"

theorem cyclic_file_bounded_witness:
  "int (file_len (logger (write_lines sample_env (replicate 1000 (''WS_TX'', ''hello'')) cyclic_world))) \<le> 4096"
proof -
  have ok: "cyclic_ok (logger cyclic_world)" and cap: "4096 = cyclic_capacity_bytes (logger cyclic_world)"
    by (simp_all add: cyclic_world_def zero_logger_def cyclic_ok_def file_len_def)
  have "\<forall>(kind, payload) \<in> set (replicate n (''WS_TX'', ''hello'')).
      int (length kind) + 22 \<le> 4096 \<and> int (length payload) \<le> 4096" for n
    by (auto simp: set_replicate_conv_if split: if_splits)
  from cyclic_file_bounded[OF ok cap this, of sample_env 1000] show ?thesis by blast
qed

text \<open>C38.  The maintenance picks the right file: among the regular log files of the directory other than
  the current one it returns one with the smallest modification time, and it reports that there is none
  only when there is none.\<close>

theorem oldest_log_selected:
  assumes "find_oldest_deletable_log e w = (Some r, w')"
  shows "case r of
      None \<Rightarrow> \<forall>d \<in> set (dir w). deletable (logger w) d = None
    | Some p \<Rightarrow> \<exists>d \<in> set (dir w). \<exists>t. deletable (logger w) d = Some t \<and>
        p = log_full_path (log_dir (logger w)) (d_name d) \<and> p \<noteq> current_path (logger w) \<and>
        is_logger_file_name (d_name d) \<and>
        (\<forall>d' \<in> set (dir w). \<forall>t'. deletable (logger w) d' = Some t' \<longrightarrow> t \<le> t')"
proof -
  let ?o = "oldest_loop (logger w) (dir w) None"
  have r: "r = map_option snd ?o" by (rule find_oldest_spec [OF assms])
  show ?thesis
  proof (cases ?o)
    case None
    then show ?thesis using r oldest_loop_None[OF None] by simp
  next
    case (Some tp)
    then obtain t p where tp: "?o = Some (t, p)" by (cases tp) simp
    from oldest_loop_cases[OF tp] obtain d where d: "d \<in> set (dir w)" "deletable (logger w) d = Some t"
      "p = log_full_path (log_dir (logger w)) (d_name d)" by auto
    have "\<forall>d' \<in> set (dir w). \<forall>t'. deletable (logger w) d' = Some t' \<longrightarrow> t \<le> t'"
      using oldest_loop_min[OF tp] by blast
    then show ?thesis using r tp d deletable_not_current[OF d(2)] by auto
  qed
qed

definition two_logs :: "dirent list" where
  "two_logs = [\<lparr>d_name = ''simple_ws_b'', d_stat = Some (True, Timespec 20 0)\<rparr>,
               \<lparr>d_name = ''simple_ws_a'', d_stat = Some (True, Timespec 10 5)\<rparr>]"

theorem oldest_log_selected_witness:
  "\<exists>d \<in> set two_logs. \<exists>t. deletable (logger cyclic_world) d = Some t \<and> t \<le> Timespec 20 0"
proof -
  let ?w = "cyclic_world\<lparr>dir := two_logs\<rparr>"
  have "find_oldest_deletable_log sample_env ?w = (Some (Some ''/log/simple_ws_a''), snd (find_oldest_deletable_log sample_env ?w))"
    by (simp add: find_oldest_deletable_log_def io_call_def sample_env_def two_logs_def cyclic_world_def zero_logger_def
        deletable_def log_full_path_def is_logger_file_name_def starts_with_def PATH_MAX_def timespec_cmp_def Let_def)
  from oldest_log_selected[OF this] show ?thesis
    by (auto simp: cyclic_world_def two_logs_def deletable_def log_full_path_def is_logger_file_name_def starts_with_def
        PATH_MAX_def zero_logger_def less_eq_timespec_def Let_def)
qed

text \<open>C39.  Maintenance spares what it must: entries of the directory that are not log files, and the
  file being written, are the same before and after, however many log files are deleted.\<close>

theorem maintenance_spares:
  "filter (protected (logger w)) (dir (maybe_run_maintenance_locked e w)) = filter (protected (logger w)) (dir w)"
proof -
  let ?w = "set_logger (\<lambda>l. l\<lparr>next_maintenance_ms := fst (monotonic_ms e w) + LOGGER_MAINTENANCE_INTERVAL_MS\<rparr>)
    (snd (monotonic_ms e w))"
  have "protected (logger ?w) = protected (logger w)" by (simp add: protected_def fun_eq_iff set_logger_def)
  moreover have "dir ?w = dir w" by (simp add: set_logger_def)
  ultimately have "filter (protected (logger w)) (dir (maintenance_loop e ?w)) = filter (protected (logger w)) (dir w)"
    using maintenance_protected[of ?w e] by simp
  then show ?thesis
    by (simp add: maybe_run_maintenance_locked_def case_prod_beta Let_def split: option.splits)
      (simp add: set_logger_def)
qed

text \<open>C40.  In normal mode a line is appended whole: with a working file system the file afterwards is the
  file before, followed by the time stamp, the kind, the payload and a newline.\<close>

theorem normal_line_appended:
  assumes "file_io_works e" and "fp (logger w) = Some st"
  shows "\<exists>st' ns. fp (logger (snd (write_normal_line_locked e kind payload w))) = Some st' \<and>
    file_bytes st' = file_bytes st @ show_u (unat (ns :: u64)) @ '','' @ kind @ '','' @ payload @ ''\<newline>''"
  using write_normal_line_appends[OF assms, of kind payload] by (auto simp: log_header_def)

theorem normal_line_appended_witness:
  "\<exists>st' ns. fp (logger (snd (write_normal_line_locked sample_env ''WS_RX'' ''hi'' cyclic_world))) = Some st' \<and>
     file_bytes st' = show_u (unat (ns :: u64)) @ '',WS_RX,hi\<newline>''"
proof -
  have "file_io_works sample_env" by (simp add: file_io_works_def sample_env_def)
  from normal_line_appended[OF this, of cyclic_world "\<lparr>file_bytes = [], file_pos = 0\<rparr>" "''WS_RX''" "''hi''"]
  show ?thesis by (simp add: cyclic_world_def)
qed

end
