(* ===== verification/Spec2Isabelle.thy ===== *)
theory Spec2Isabelle
  imports Dispatch Program Reports LoggerInv
begin

text \<open>
  A verification development for \<^verbatim>\<open>ws_server\<close>, a C program that bridges WebSocket clients and a CAN bus
  for the valves of a rocket test stand (\<^verbatim>\<open>src/src\<close>, headers in \<^verbatim>\<open>src/include\<close>).

  \<^bold>\<open>The program.\<close>  \<^verbatim>\<open>main.c\<close> reads a configuration (\<^verbatim>\<open>app/config.c\<close>), opens the log
  (\<^verbatim>\<open>util/logger.c\<close>), the CAN socket (\<^verbatim>\<open>can/can_bus.c\<close>), an epoll set with a timer, and the WebSocket
  server (\<^verbatim>\<open>ws/ws_bridge.c\<close>).  Its event loop stores received CAN values, and at each tick toggles the
  wiggles (\<^verbatim>\<open>control/wiggle.c\<close>), sends a heartbeat every second (\<^verbatim>\<open>util/heartbeat.c\<close>) and broadcasts what
  changed on the bus.  Text messages of clients are commands (\<^verbatim>\<open>control/command.c\<close>): they set the
  operating state (\<^verbatim>\<open>control/state.c\<close>), start and stop wiggles, send raw frames, or start a firing
  sequence, which a thread of its own carries out (\<^verbatim>\<open>control/firing_sequence.c\<close>).

  \<^bold>\<open>The model.\<close>  All operations act on a \<open>world\<close> (theory \<open>Context\<close>): the application context as a record
  with the members of \<^verbatim>\<open>app_context_t\<close>, the logger, the firing thread with its program counter, the log
  directory, \<^verbatim>\<open>errno\<close>, the frames waiting on the CAN socket, and the trace of everything that crossed the
  program's boundary (clock readings, system calls, frames written, texts sent).  Code outside the
  repository (the kernel, the C library's I/O, the simple_ws library) is the record \<open>env\<close>, whose answers
  are functions of the trace; theorems hold for every \<open>env\<close>, or name what they need of it
  (\<open>clock_passes\<close>, \<open>clock_sane\<close>, \<open>writes_succeed\<close>, \<open>file_io_works\<close>, \<open>user_data_law\<close>).  The string functions of
  the C library the program calls are modelled in \<open>CLib\<close>.  Numbers keep their widths as words;
  \<^verbatim>\<open>int\<close> members are integers with every narrowing conversion written out.

  \<^bold>\<open>The theories.\<close>
  \<^item> \<open>Prelude\<close>: word types, fact collections, list lemmas, reachability and the locale
    \<open>inductive_invariant\<close>.
  \<^item> \<open>CLib\<close>: characters, number scanning and printing, \<^verbatim>\<open>sscanf\<close>, \<^verbatim>\<open>strtok_r\<close>, with the round trips
    between printing and scanning.
  \<^item> \<open>Context\<close>: structs, environment, world, clocks, \<^verbatim>\<open>app_context_init\<close>.
  \<^item> \<open>Logger\<close>, \<open>LoggerInv\<close>: the CSV logger; bounded cyclic files, choice of the oldest file,
    protected files, appended lines (C37 to C40).
  \<^item> \<open>Sample\<close>: the concrete environment and worlds of the instances.
  \<^item> \<open>CanBus\<close>: interface setup, socket, frames, heartbeat, receive table and reports (C18 to C20, C32, C33);
    locale \<open>codec\<close>, interpreted for frames and again for the blocks of \<open>Firing\<close>.
  \<^item> \<open>WsText\<close>, \<open>WsBridge\<close>: sending and broadcasting, the callbacks and the client list (C23 to C26), and what
    other threads do while the main thread is at some point of its code (\<open>action\<close>, \<open>perform\<close>).
  \<^item> \<open>Wiggle\<close>: the table of sixteen wiggles, shown to be a bounded finite map (locale \<open>bounded_table\<close>),
    and the tick (C14 to C16).
  \<^item> \<open>AppState\<close>: the operating state (C17).
  \<^item> \<open>Firing\<close>: the parser of FIRE commands, starting, and the thread as a machine whose steps are the
    stretches between two points where other threads can interfere (C6 to C8, C10 to C13).
  \<^item> \<open>Command\<close>, \<open>ControlInv\<close>, \<open>Dispatch\<close>: all live and testing handlers; the invariant \<open>control_inv\<close> and the
    locales \<open>handler\<close> and \<open>silent_handler\<close>, the contract of a command handler, interpreted for every
    handler; what the dispatcher does with particular commands (C4, C5, C9).
  \<^item> \<open>MainLoop\<close>: start-up, the turns and the loops of \<^verbatim>\<open>main\<close>, shutdown (C27, C29 to C31).
  \<^item> \<open>System\<close>: the program as a transition system and its invariants (C1, C2).
  \<^item> \<open>Reports\<close>: CAN values from the socket to the texts clients receive (C21, C22).
  \<^item> \<open>AppConfig\<close>: defaults, configuration file, command line (C34 to C36).
  \<^item> \<open>Program\<close>: \<^verbatim>\<open>main\<close> as a whole, when it ends and what it has released then (C28).
  \<^item> this theory: a FIRE command from the text to the bus (C3).

  \<^bold>\<open>Granularity.\<close>  A callback of the WebSocket server, a turn of the event loop and a step of the firing
  thread are atomic.  The C code runs them on three threads whose accesses to shared fields are serialised by
  mutexes; interleavings inside one of them are not represented: between setting HOTFIRE and stopping the
  wiggles in \<open>app_state_set\<close>, between the up to three attempts at a block in the \<open>WSend\<close> step of
  \<open>worker_step\<close>, and between the descriptors handled in one turn.  The shutdown is not atomic: \<open>shutdown_runtime\<close>
  and \<open>ws_bridge_stop\<close> take as a parameter what the other threads do between their calls (callbacks
  as long as the server exists, steps of the firing thread, signals), and the loops of \<^verbatim>\<open>main\<close> take what they do
  before each test of \<open>stop\<close> and during each wait.  Steps inside \<^verbatim>\<open>wiggle_stop_all\<close> and inside the start-up, which
  runs before any client can connect, are not interleaved.

  \<^bold>\<open>Loops.\<close>  Every loop is a total function except three, which are partial functions with the value \<open>None\<close> for a
  run that never ends: the heartbeat catch-up, whose 64-bit addition may wrap (C27 shows that it returns), and
  the two \<^verbatim>\<open>while (!app.stop)\<close> loops of \<^verbatim>\<open>main\<close>, for which C28 shows exactly when they return.  The firing thread
  is run step by step (\<open>run e m w\<close>), and C6 and C3 show that some \<open>m\<close> suffices; in C13 it is run in every
  interleaving with other threads (\<open>visited\<close>).

  \<^bold>\<open>Not modelled.\<close>  Texts on the standard streams, \<^verbatim>\<open>on_error\<close> and \<^verbatim>\<open>on_handshake_fail\<close> (they only print),
  \<^verbatim>\<open>configure_stdio_for_service\<close>, mutex creation and destruction, \<^verbatim>\<open>nanosleep\<close>, stdio buffering,
  \<^verbatim>\<open>NULL\<close> arguments no caller passes, and the limit of eight events per \<^verbatim>\<open>epoll_wait\<close>.

  \<^bold>\<open>Next.\<close>  Finer interleavings of the handlers with the event loop; the wiggle schedule over many ticks; the
  text of replies; maintenance of the log over time.
\<close>

section \<open>A FIRE command, from the text to the bus\<close>

text \<open>C3.  In HOTFIRE with no sequence running, the text of a FIRE command with one to twenty-four valid
  blocks puts exactly the frames of these blocks on the bus, in order and each once, and then releases the
  sequence, when memory and threads are available, the writes succeed, the clock passes every deadline
  and nothing else intervenes.\<close>

theorem fire_command_runs:
  assumes "\<not> testing_mode (config (app w))" and "\<not> read_only (config (app w))"
    and "state (app w) = APP_STATE_HOTFIRE" and "\<not> sequence_active (app w)" and "\<not> stop (app w)"
    and "0 \<le> can_fd (app w)"
    and "\<forall>t. alloc_ok e t" and "\<forall>t. thread_create e t = 0" and "clock_passes e" and "writes_succeed e"
    and "bs \<noteq> []" and "length bs \<le> 24" and "list_all valid_block bs"
  shows "\<exists>m. worker (run e m (command_handle_text e c (fire_text bs) w)) = None \<and>
    \<not> sequence_active (app (run e m (command_handle_text e c (fire_text bs) w))) \<and>
    can_tx (trace (run e m (command_handle_text e c (fire_text bs) w)))
      = can_tx (trace w) @ map (\<lambda>(i, v, d, _). command_frame i v d) bs"
proof -
  let ?w = "command_handle_text e c (fire_text bs) w"
  have len: "length bs \<le> APP_MAX_FIRING_BLOCKS" using assms(12) by (simp add: APP_MAX_FIRING_BLOCKS_def)
  obtain args where a: "at_pc args WStart ?w" "blocks_of (arg_config args) = bs" "config_ok (arg_config args)"
    "app ?w = (app w)\<lparr>sequence_active := True, sequence_abort := False\<rparr>" "can_tx (trace ?w) = can_tx (trace w)"
    by (rule fire_command [OF assms(1-4) _ _ assms(11) len assms(13), of e c]) (use assms(7,8) in auto)
  let ?v = "worker_step e ?w"
  have b: "at_pc args (WBlock 0) ?v" "app ?v = app ?w" "can_tx (trace ?v) = can_tx (trace ?w)"
    using step_start[OF a(1), of e] by (simp_all add: silent_can_def)
  have run: "\<not> interrupted ?v" "0 \<le> can_fd (app ?v)" using b(2) a(4) assms(5,6) by (simp_all add: interrupted_def)
  obtain m where m: "released (run e m ?v)"
    "can_tx (trace (run e m ?v)) = can_tx (trace ?v) @ map block_frame (drop 0 (blocks_of (arg_config args)))"
    using all_blocks[OF assms(9,10) a(3) b(1) _ run] by blast
  have "block_frame = (\<lambda>(i, v, d, _). command_frame i v d)" by (simp add: block_frame_def fun_eq_iff)
  with m a b show ?thesis by (intro exI [of _ "Suc m"]) (simp add: released_def)
qed

theorem fire_command_runs_witness:
  "\<exists>m. can_tx (trace (run sample_env m (command_handle_text sample_env 1
      (fire_text [(0x709, 0x99, 0, 500), (0x702, 0x74, 1000, 0)]) hotfire_world)))
    = [command_frame 0x709 0x99 0, command_frame 0x702 0x74 1000]"
proof -
  have v: "list_all valid_block [(0x709, 0x99, 0, 500), (0x702, 0x74, 1000, 0)]" by (simp add: valid_block_def)
  have env: "\<forall>t. alloc_ok sample_env t" "\<forall>t. thread_create sample_env t = 0" by (simp_all add: sample_env_def)
  have w: "\<not> testing_mode (config (app hotfire_world))" "\<not> read_only (config (app hotfire_world))"
    "state (app hotfire_world) = APP_STATE_HOTFIRE" "\<not> sequence_active (app hotfire_world)"
    "\<not> stop (app hotfire_world)" "0 \<le> can_fd (app hotfire_world)" "can_tx (trace hotfire_world) = []"
    by (simp_all add: sample_simps)
  from fire_command_runs[OF w(1-6) env sample_clock_passes sample_writes_succeed _ _ v, of 1] w(7)
  show ?thesis by auto
qed

end
